theory Spec2Isabelle
  imports Complex_Main "HOL-Library.Multiset" "HOL-Library.Log_Nat"
begin

section \<open>Mechanism Y: micro-batch pattern detection\<close>

text \<open>
  A shallow embedding of the pattern-detection job (the PySpark script with
  \<^verbatim>\<open>process_batch\<close>). Conventions of the model:

  \<^item> A DataFrame is the list of its rows. Spark fixes no row order for \<^verbatim>\<open>groupBy\<close>,
    \<^verbatim>\<open>distinct\<close> and \<^verbatim>\<open>collect\<close>; the model takes the order \<^const>\<open>remdups\<close> gives, and
    no theorem below depends on it beyond what it states.
  \<^item> Every column of an input row holds a value, as in the data model of the
    specification (section 3); the only SQL NULL of the model is the one the left
    join produces for a transaction without a reference entry. Comparisons with NULL
    follow SQL's three-valued logic.
  \<^item> A finite floating-point value (amount, weight) is the rational it denotes; NaN and
    the infinities are outside the model. Comparisons are exact on these values, and
    the double-precision additions and the division of Spark's \<^verbatim>\<open>avg\<close> round to the
    nearest double (section Double precision).
  \<^item> A Python exception is a value \<open>Inl e\<close> of the result type.
\<close>

subsection \<open>Data model\<close>

text \<open>The columns of \<^verbatim>\<open>transaction_schema\<close> that \<^verbatim>\<open>process_batch\<close> reads.\<close>

record TransactionRecord =
  customer :: string
  gender :: string
  merchant :: string
  amount :: rat

text \<open>A row of \<^verbatim>\<open>df_customer_importance\<close> after the renaming and the cast.\<close>

record ImportanceEntry =
  customer_id :: string
  merchant_id :: string
  weight :: rat

text \<open>A row of the detection output.\<close>

record Detection =
  patternId :: string
  ActionType :: string
  customerName :: string
  MerchantId :: string
  YStartTime :: string
  detectionTime :: string

datatype py_error = IndexError | UnboundLocalError

text \<open>A Python float that may be \<^verbatim>\<open>float('inf')\<close>.\<close>

datatype pyfloat = Fin rat | PosInf

subsection \<open>Configuration\<close>

definition PAT1_MERCHANT_TXN_THRESHOLD :: int where
  "PAT1_MERCHANT_TXN_THRESHOLD = 50000"

definition PAT2_AVG_TXN_VALUE_THRESHOLD :: rat where
  "PAT2_AVG_TXN_VALUE_THRESHOLD = 23"

definition PAT2_MIN_TXN_COUNT :: int where
  "PAT2_MIN_TXN_COUNT = 80"

definition DETECTION_BATCH_SIZE :: nat where
  "DETECTION_BATCH_SIZE = 50"

subsection \<open>Reference data: the percentile cut points\<close>

text \<open>
  \<^verbatim>\<open>customer_weights = df_customer_importance.select("weight")...collect()\<close>, then
  \<^verbatim>\<open>customer_weights.sort()\<close>.
\<close>

definition customer_weights :: "ImportanceEntry list \<Rightarrow> rat list" where
  "customer_weights df_customer_importance = sort (map weight df_customer_importance)"

text \<open>Python's \<^verbatim>\<open>xs[i]\<close> for a non-negative index: out of range raises.\<close>

definition py_getitem :: "'a list \<Rightarrow> nat \<Rightarrow> py_error + 'a" where
  "py_getitem xs i = (if i < length xs then Inr (xs ! i) else Inl IndexError)"

text \<open>
  \<^verbatim>\<open>int(len(customer_weights) * 0.01)\<close> and \<^verbatim>\<open>int(len(customer_weights) * 0.99)\<close>.
  The products are computed in double precision; for every length a list can have
  the truncated product is the integer quotient below (the double nearest to 0.01
  lies above it, the one nearest to 0.99 lies below it by less than half a unit in
  the last place of any product that is an integer).
\<close>

definition bottom_index :: "nat \<Rightarrow> nat" where
  "bottom_index n = n div 100"

definition top_index :: "nat \<Rightarrow> nat" where
  "top_index n = (99 * n) div 100"

text \<open>
  \<^verbatim>\<open>customer_weights[int(len(customer_weights) * 0.01)] if customer_weights else 0\<close>;
  the argument is the sorted list.
\<close>

definition bottom_1_percentile_weight_threshold :: "rat list \<Rightarrow> py_error + pyfloat" where
  "bottom_1_percentile_weight_threshold ws =
     (if ws \<noteq> [] then
        (case py_getitem ws (bottom_index (length ws)) of
           Inl e \<Rightarrow> Inl e
         | Inr w \<Rightarrow> Inr (Fin w))
      else Inr (Fin 0))"

text \<open>
  \<^verbatim>\<open>customer_weights[int(len(customer_weights) * 0.99)] if customer_weights else float('inf')\<close>.
\<close>

definition top_1_percentile_weight_threshold :: "rat list \<Rightarrow> py_error + pyfloat" where
  "top_1_percentile_weight_threshold ws =
     (if ws \<noteq> [] then
        (case py_getitem ws (top_index (length ws)) of
           Inl e \<Rightarrow> Inl e
         | Inr w \<Rightarrow> Inr (Fin w))
      else Inr PosInf)"


subsection \<open>Double precision\<close>

text \<open>
  A double has a significand of 53 bits: for \<open>2^e \<le> |x| < 2^(e+1)\<close> the doubles around
  \<open>x\<close> are the multiples of \<open>2^(e-52)\<close>, and an operation returns the multiple nearest
  to its exact result, the even one of two equally near. The exponent range is not
  modelled: sums and means of at most \<open>2^31\<close> finite float values stay inside it.
\<close>

definition two_powi :: "int \<Rightarrow> rat" where
  "two_powi e = (if 0 \<le> e then 2 ^ nat e else 1 / 2 ^ nat (- e))"

definition round_half_even :: "rat \<Rightarrow> int" where
  "round_half_even y =
     (let f = \<lfloor>y\<rfloor>; r = y - of_int f
      in if r < 1 / 2 then f else if 1 / 2 < r then f + 1 else if even f then f else f + 1)"

text \<open>For \<open>x > 0\<close>, the \<open>e\<close> with \<open>2^e \<le> x < 2^(e+1)\<close>.\<close>

definition ilog2 :: "rat \<Rightarrow> int" where
  "ilog2 x =
     (let (p, q) = quotient_of x; d = bitlen p - bitlen q
      in if two_powi d \<le> x then d else d - 1)"

definition round_double :: "rat \<Rightarrow> rat" where
  "round_double x =
     (if x = 0 then 0
      else let u = two_powi (ilog2 \<bar>x\<bar> - 52)
           in sgn x * of_int (round_half_even (\<bar>x\<bar> / u)) * u)"

text \<open>
  The sum buffer of \<^verbatim>\<open>avg\<close>: it starts at 0.0 and adds the amounts, cast to double, in
  the order of the rows. A micro-batch is one chunk file
  (\<^verbatim>\<open>maxFilesPerTrigger = 1\<close>), read as one partition, so the order is that of the file.
\<close>

definition double_sum :: "rat list \<Rightarrow> rat" where
  "double_sum xs = foldl (\<lambda>s a. round_double (s + a)) 0 xs"

subsection \<open>SQL values\<close>

text \<open>
  A nullable SQL value is an \<open>option\<close>; a comparison with NULL is NULL, \<^verbatim>\<open>&\<close> is
  Kleene's conjunction, and \<^verbatim>\<open>filter\<close> keeps the rows whose condition is true.
\<close>

fun sql_le :: "rat option \<Rightarrow> pyfloat \<Rightarrow> bool option" where
  "sql_le None b = None"
| "sql_le (Some w) (Fin b) = Some (w \<le> b)"
| "sql_le (Some w) PosInf = Some True"

fun sql_lt :: "rat option \<Rightarrow> rat \<Rightarrow> bool option" where
  "sql_lt None b = None"
| "sql_lt (Some a) b = Some (a < b)"

fun sql_and :: "bool option \<Rightarrow> bool option \<Rightarrow> bool option" where
  "sql_and (Some False) q = Some False"
| "sql_and p (Some False) = Some False"
| "sql_and (Some True) (Some True) = Some True"
| "sql_and p q = None"

definition keeps :: "bool option \<Rightarrow> bool" where
  "keeps c = (c = Some True)"

text \<open>
  \<^verbatim>\<open>avg\<close> of the float column over a group: NULL for no rows, else the sum divided
  by the count, both as doubles.
\<close>

definition avg :: "rat list \<Rightarrow> rat option" where
  "avg xs =
     (if xs = [] then None
      else Some (round_double (double_sum xs / of_nat (length xs))))"

text \<open>\<^verbatim>\<open>spark_sum\<close> of a column over a group: NULL for no rows.\<close>

definition spark_sum :: "int list \<Rightarrow> int option" where
  "spark_sum xs = (if xs = [] then None else Some (sum_list xs))"

text \<open>\<^verbatim>\<open>fillna(0)\<close> on a numeric column.\<close>

definition fillna0 :: "int option \<Rightarrow> int" where
  "fillna0 v = (case v of None \<Rightarrow> 0 | Some n \<Rightarrow> n)"

subsection \<open>Pattern 1: UPGRADE\<close>

text \<open>
  The left join of the batch with the reference table on customer and merchant:
  one row per matching reference entry, and one row with a NULL weight for a
  transaction that matches none.
\<close>

definition transactions_with_importance ::
  "TransactionRecord list \<Rightarrow> ImportanceEntry list \<Rightarrow> (TransactionRecord \<times> rat option) list" where
  "transactions_with_importance processed_df ci =
     concat (map (\<lambda>t.
       let ms = filter (\<lambda>e. customer t = customer_id e \<and> merchant t = merchant_id e) ci
       in if ms = [] then [(t, None)] else map (\<lambda>e. (t, Some (weight e))) ms) processed_df)"

text \<open>\<^verbatim>\<open>lambda m_id: merchant_total_txns_b.value.get(m_id, 0)\<close>.\<close>

definition get_total_txns_udf :: "(string \<rightharpoonup> int) \<Rightarrow> string \<Rightarrow> int" where
  "get_total_txns_udf merchant_total_txns_b m_id =
     (case merchant_total_txns_b m_id of None \<Rightarrow> 0 | Some v \<Rightarrow> v)"

definition detection :: "string \<Rightarrow> string \<Rightarrow> string \<Rightarrow> string \<Rightarrow> Detection" where
  "detection p a c m =
     \<lparr>patternId = p, ActionType = a, customerName = c, MerchantId = m,
      YStartTime = [], detectionTime = []\<rparr>"

definition pat1_detections ::
  "TransactionRecord list \<Rightarrow> ImportanceEntry list \<Rightarrow> pyfloat \<Rightarrow> (string \<rightharpoonup> int) \<Rightarrow> Detection list" where
  "pat1_detections processed_df ci bottom snapshot =
     remdups (map (\<lambda>(t, w). detection ''PatId1'' ''UPGRADE'' (customer t) (merchant t))
       (filter (\<lambda>(t, w). keeps (sql_and (sql_le w bottom)
            (Some (get_total_txns_udf snapshot (merchant t) > PAT1_MERCHANT_TXN_THRESHOLD))))
          (transactions_with_importance processed_df ci)))"

subsection \<open>Pattern 2: CHILD\<close>

text \<open>\<^verbatim>\<open>groupBy("customer", "merchant").agg(avg("amount"), count("*"))\<close>.\<close>

definition customer_merchant_stats ::
  "TransactionRecord list \<Rightarrow> (string \<times> string \<times> rat option \<times> int) list" where
  "customer_merchant_stats processed_df =
     map (\<lambda>(c, m).
       let g = filter (\<lambda>t. customer t = c \<and> merchant t = m) processed_df
       in (c, m, avg (map amount g), int (length g)))
     (remdups (map (\<lambda>t. (customer t, merchant t)) processed_df))"

definition pat2_detections :: "TransactionRecord list \<Rightarrow> Detection list" where
  "pat2_detections processed_df =
     remdups (map (\<lambda>(c, m, avg_amount, txn_count). detection ''PatId2'' ''CHILD'' c m)
       (filter (\<lambda>(c, m, avg_amount, txn_count).
            keeps (sql_and (sql_lt avg_amount PAT2_AVG_TXN_VALUE_THRESHOLD)
                           (Some (txn_count \<ge> PAT2_MIN_TXN_COUNT))))
          (customer_merchant_stats processed_df)))"

subsection \<open>Pattern 3: DEI-NEEDED\<close>

text \<open>
  \<^verbatim>\<open>filter(col("gender").isin("M", "F")).groupBy("merchant", "gender").agg(count("*"))\<close>.
\<close>

definition gender_counts_per_merchant ::
  "TransactionRecord list \<Rightarrow> (string \<times> string \<times> int) list" where
  "gender_counts_per_merchant processed_df =
     (let df = filter (\<lambda>t. gender t \<in> {''M'', ''F''}) processed_df
      in map (\<lambda>(m, g). (m, g, int (length (filter (\<lambda>t. merchant t = m \<and> gender t = g) df))))
           (remdups (map (\<lambda>t. (merchant t, gender t)) df)))"

text \<open>
  \<^verbatim>\<open>groupBy("merchant").pivot("gender", ["M", "F"]).agg(spark_sum("gender_count")).fillna(0)\<close>:
  one row (merchant, M, F) per merchant; a gender without rows for a merchant gives
  NULL, which \<^verbatim>\<open>fillna(0)\<close> replaces by 0.
\<close>

definition pivoted_gender_counts ::
  "(string \<times> string \<times> int) list \<Rightarrow> (string \<times> int \<times> int) list" where
  "pivoted_gender_counts gc =
     map (\<lambda>m.
       (m,
        fillna0 (spark_sum (map (\<lambda>(m', g, n). n) (filter (\<lambda>(m', g, n). m' = m \<and> g = ''M'') gc))),
        fillna0 (spark_sum (map (\<lambda>(m', g, n). n) (filter (\<lambda>(m', g, n). m' = m \<and> g = ''F'') gc)))))
     (remdups (map (\<lambda>(m', g, n). m') gc))"

definition pat3_detections :: "TransactionRecord list \<Rightarrow> Detection list" where
  "pat3_detections processed_df =
     remdups (map (\<lambda>(m, M, F). detection ''PatId3'' ''DEI-NEEDED'' [] m)
       (filter (\<lambda>(m, M, F). F < M)
          (pivoted_gender_counts (gender_counts_per_merchant processed_df))))"

subsection \<open>The counter store\<close>

text \<open>
  The table \<^verbatim>\<open>merchant_transaction_counts\<close> maps a merchant to its counter. Each call
  of a client function opens a connection of its own; what the database does at a call
  is not decided by the program, so the model takes it from a schedule: the head of
  \<open>faults\<close> says which step of the next call raises, if any (no entry: none).
  \<open>ConnectFails\<close> is \<^verbatim>\<open>psycopg2.connect\<close> raising (the store cannot be reached),
  \<open>CursorFails\<close> is \<^verbatim>\<open>conn.cursor()\<close> raising, \<open>StatementFails\<close> is a later step
  (\<^verbatim>\<open>execute\<close>, \<^verbatim>\<open>commit\<close>, \<^verbatim>\<open>fetchone\<close>) raising.
\<close>

datatype db_fault = NoFault | ConnectFails | CursorFails | StatementFails

datatype store_call = Increment string int | Lookup string

datatype log_line = UpdateError string | RetrieveError string

text \<open>
  What a batch can change: the table, the calls made to the client functions, the error
  lines printed, the snapshots broadcast, and the writes requested (the number of
  partitions asked of \<^verbatim>\<open>repartition\<close> and the rows written).
\<close>

record world =
  table :: "string \<rightharpoonup> int"
  faults :: "db_fault list"
  calls :: "store_call list"
  printed :: "log_line list"
  broadcasts :: "(string \<rightharpoonup> int) list"
  writes :: "(nat \<times> Detection list) list"

definition next_fault :: "world \<Rightarrow> db_fault" where
  "next_fault w = (case faults w of [] \<Rightarrow> NoFault | f # fs \<Rightarrow> f)"

text \<open>What the database does at the \<open>k\<close>-th of the coming calls, counted from 0.\<close>

definition fault_at :: "world \<Rightarrow> nat \<Rightarrow> db_fault" where
  "fault_at w k = (if k < length (faults w) then faults w ! k else NoFault)"

text \<open>The value of a merchant's counter, 0 when the table has no row for it.\<close>

definition counter :: "(string \<rightharpoonup> int) \<Rightarrow> string \<Rightarrow> int" where
  "counter tbl m = (case tbl m of None \<Rightarrow> 0 | Some v \<Rightarrow> v)"

text \<open>
  The client functions assign \<^verbatim>\<open>conn\<close> and \<^verbatim>\<open>cur\<close> inside their \<^verbatim>\<open>try\<close> block, so
  both are local variables, unbound until assigned. The pair says which of
  (\<^verbatim>\<open>conn\<close>, \<^verbatim>\<open>cur\<close>) is bound when the block is left.
\<close>

fun try_block_locals :: "db_fault \<Rightarrow> bool \<times> bool" where
  "try_block_locals ConnectFails = (False, False)"
| "try_block_locals CursorFails = (True, False)"
| "try_block_locals StatementFails = (True, True)"
| "try_block_locals NoFault = (True, True)"

text \<open>
  \<^verbatim>\<open>finally: if cur: cur.close()\<close> then \<^verbatim>\<open>if conn: conn.close()\<close>: reading an unbound
  local raises \<^verbatim>\<open>UnboundLocalError\<close>, which leaves the function in place of its
  normal completion or of its \<^verbatim>\<open>return\<close>.
\<close>

fun finally_block :: "bool \<times> bool \<Rightarrow> py_error option" where
  "finally_block (conn, cur) =
     (if \<not> cur then Some UnboundLocalError
      else if \<not> conn then Some UnboundLocalError
      else None)"

text \<open>
  The column \<^verbatim>\<open>merchant_id\<close> is a VARCHAR(255) and the column
  \<^verbatim>\<open>total_transactions\<close> a BIGINT: a statement that would store a longer key or a
  value outside the range raises (PostgreSQL cuts a key whose excess is only blanks;
  the model refuses it like any other long key).
\<close>

definition in_bigint :: "int \<Rightarrow> bool" where
  "in_bigint v = (- (2 ^ 63) \<le> v \<and> v \<le> 2 ^ 63 - 1)"

text \<open>
  \<^verbatim>\<open>INSERT ... ON CONFLICT (merchant_id) DO UPDATE SET total_transactions =
  total_transactions + EXCLUDED.total_transactions\<close>: the new table, or \<open>None\<close> when
  the statement raises.
\<close>

definition upsert_row :: "(string \<rightharpoonup> int) \<Rightarrow> string \<Rightarrow> int \<Rightarrow> (string \<rightharpoonup> int) option" where
  "upsert_row tbl m_id count_delta =
     (let v = (case tbl m_id of None \<Rightarrow> count_delta | Some old \<Rightarrow> old + count_delta)
      in if length m_id \<le> 255 \<and> in_bigint v then Some (tbl(m_id \<mapsto> v)) else None)"

text \<open>The statement of an increment does not raise.\<close>

definition accepted :: "(string \<rightharpoonup> int) \<Rightarrow> string \<Rightarrow> int \<Rightarrow> bool" where
  "accepted tbl m d = (length m \<le> 255 \<and> in_bigint (counter tbl m + d))"

text \<open>
  \<^verbatim>\<open>upsert_merchant_counts(merchant_id, count_delta)\<close>: an exception of the statement
  is caught and printed, and the increment is dropped.
\<close>

definition upsert_merchant_counts :: "string \<Rightarrow> int \<Rightarrow> world \<Rightarrow> py_error + world" where
  "upsert_merchant_counts m_id count_delta w =
     (let f = next_fault w;
          w1 = w\<lparr>faults := tl (faults w),
                 calls := calls w @ [Increment m_id count_delta]\<rparr>;
          w2 = (if f = NoFault
                then (case upsert_row (table w1) m_id count_delta of
                        Some tbl \<Rightarrow> w1\<lparr>table := tbl\<rparr>
                      | None \<Rightarrow> w1\<lparr>printed := printed w1 @ [UpdateError m_id]\<rparr>)
                else w1\<lparr>printed := printed w1 @ [UpdateError m_id]\<rparr>)
      in case finally_block (try_block_locals f) of
           Some e \<Rightarrow> Inl e
         | None \<Rightarrow> Inr w2)"

text \<open>
  \<^verbatim>\<open>SELECT total_transactions ... WHERE merchant_id = %s\<close>, then
  \<^verbatim>\<open>result[0] if result else 0\<close>; \<^verbatim>\<open>return 0\<close> in the handler.
\<close>

definition get_merchant_total_transactions :: "string \<Rightarrow> world \<Rightarrow> py_error + (int \<times> world)" where
  "get_merchant_total_transactions m_id w =
     (let f = next_fault w;
          w1 = w\<lparr>faults := tl (faults w), calls := calls w @ [Lookup m_id]\<rparr>;
          r = (if f = NoFault
               then (case table w1 m_id of None \<Rightarrow> 0 | Some v \<Rightarrow> v, w1)
               else (0, w1\<lparr>printed := printed w1 @ [RetrieveError m_id]\<rparr>))
      in case finally_block (try_block_locals f) of
           Some e \<Rightarrow> Inl e
         | None \<Rightarrow> Inr r)"

subsection \<open>The batch processor\<close>

text \<open>\<^verbatim>\<open>processed_df.groupBy("merchant").agg(spark_count("*"))\<close>.\<close>

definition merchant_counts_in_batch :: "TransactionRecord list \<Rightarrow> (string \<times> int) list" where
  "merchant_counts_in_batch processed_df =
     map (\<lambda>m. (m, int (length (filter (\<lambda>t. merchant t = m) processed_df))))
       (remdups (map merchant processed_df))"

text \<open>
  \<^verbatim>\<open>for index, row in merchant_counts_pd.iterrows(): upsert_merchant_counts(...)\<close>: an
  exception leaves the loop.
\<close>

fun upsert_all :: "(string \<times> int) list \<Rightarrow> world \<Rightarrow> py_error + world" where
  "upsert_all [] w = Inr w"
| "upsert_all ((m, d) # rows) w =
     (case upsert_merchant_counts m d w of
        Inl e \<Rightarrow> Inl e
      | Inr w' \<Rightarrow> upsert_all rows w')"

text \<open>\<^verbatim>\<open>processed_df.select("merchant").distinct().collect()\<close>.\<close>

definition distinct_merchants_in_batch :: "TransactionRecord list \<Rightarrow> string list" where
  "distinct_merchants_in_batch processed_df = remdups (map merchant processed_df)"

text \<open>
  \<^verbatim>\<open>{m.merchant: get_merchant_total_transactions(m.merchant) for m in ...}\<close>: the
  dictionary is filled in the order of the list; the second argument is the
  dictionary so far.
\<close>

fun merchant_total_txns_map ::
  "string list \<Rightarrow> (string \<rightharpoonup> int) \<Rightarrow> world \<Rightarrow> py_error + ((string \<rightharpoonup> int) \<times> world)" where
  "merchant_total_txns_map [] acc w = Inr (acc, w)"
| "merchant_total_txns_map (m # ms) acc w =
     (case get_merchant_total_transactions m w of
        Inl e \<Rightarrow> Inl e
      | Inr (v, w') \<Rightarrow> merchant_total_txns_map ms (acc(m \<mapsto> v)) w')"

text \<open>
  \<^verbatim>\<open>(num_rows + DETECTION_BATCH_SIZE - 1) // DETECTION_BATCH_SIZE\<close>, then
  \<^verbatim>\<open>max(1, num_partitions)\<close>.
\<close>

definition num_partitions :: "nat \<Rightarrow> nat" where
  "num_partitions num_rows =
     max 1 ((num_rows + DETECTION_BATCH_SIZE - 1) div DETECTION_BATCH_SIZE)"

text \<open>
  The write of the detections: nothing for no rows, else one
  \<^verbatim>\<open>final_detections.repartition(num_partitions).write...csv(batch_output_path)\<close> into
  a folder named by the batch id and a random token.
\<close>

definition write_detections :: "Detection list \<Rightarrow> world \<Rightarrow> world" where
  "write_detections final_detections w =
     (if final_detections \<noteq> [] then
        (let num_rows = length final_detections in
         if num_rows > 0
         then w\<lparr>writes := writes w @ [(num_partitions num_rows, final_detections)]\<rparr>
         else w)
      else w)"

text \<open>The union of the three detectors' rows, stamped with the two times.\<close>

definition final_detections ::
  "ImportanceEntry list \<Rightarrow> pyfloat \<Rightarrow> string \<Rightarrow> string \<Rightarrow> TransactionRecord list
     \<Rightarrow> (string \<rightharpoonup> int) \<Rightarrow> Detection list" where
  "final_detections ci bottom y_start_time_ist detection_time_ist_str processed_df snapshot =
     map (\<lambda>d. d\<lparr>YStartTime := y_start_time_ist, detectionTime := detection_time_ist_str\<rparr>)
       (pat1_detections processed_df ci bottom snapshot
        @ pat2_detections processed_df
        @ pat3_detections processed_df)"

text \<open>
  \<^verbatim>\<open>process_batch(current_df, batch_id)\<close>. The reference table, bottomPct and the two
  readings of the clock are parameters. The conversion of the ingestion timestamp does
  not touch the columns the detectors read, so \<^verbatim>\<open>processed_df\<close> is \<^verbatim>\<open>current_df\<close>.
\<close>

definition process_batch ::
  "ImportanceEntry list \<Rightarrow> pyfloat \<Rightarrow> string \<Rightarrow> string \<Rightarrow> TransactionRecord list
     \<Rightarrow> world \<Rightarrow> py_error + world" where
  "process_batch ci bottom y_start_time_ist detection_time_ist_str current_df w =
     (if current_df = [] then Inr w
      else
        (case upsert_all (merchant_counts_in_batch current_df) w of
           Inl e \<Rightarrow> Inl e
         | Inr w1 \<Rightarrow>
             (case merchant_total_txns_map (distinct_merchants_in_batch current_df) Map.empty w1 of
                Inl e \<Rightarrow> Inl e
              | Inr (snapshot, w2) \<Rightarrow>
                  Inr (write_detections
                         (final_detections ci bottom y_start_time_ist detection_time_ist_str
                            current_df snapshot)
                         (w2\<lparr>broadcasts := broadcasts w2 @ [snapshot]\<rparr>)))))"

subsection \<open>Repartitioning\<close>

text \<open>
  \<^verbatim>\<open>repartition(n)\<close> is Spark's round-robin repartitioning: the rows of the DataFrame
  lie in input partitions, and every input partition deals its rows in turn to the \<open>n\<close>
  output partitions, starting after a position of its own. The input partitions and
  their positions are chosen by Spark, so they are the argument here: a list of
  (position, rows).
\<close>

fun deal :: "nat \<Rightarrow> nat \<Rightarrow> 'a list \<Rightarrow> (nat \<times> 'a) list" where
  "deal n p [] = []"
| "deal n p (x # xs) = ((p + 1) mod n, x) # deal n (p + 1) xs"

definition repartition :: "nat \<Rightarrow> (nat \<times> 'a list) list \<Rightarrow> 'a list list" where
  "repartition n parts =
     (let dealt = concat (map (\<lambda>(p, rows). deal n p rows) parts)
      in map (\<lambda>j. map snd (filter (\<lambda>(i, x). i = j) dealt)) [0..<n])"

text \<open>
  The partitions written for a non-empty detection set that lies in the input
  partitions \<open>parts\<close>.
\<close>

definition output_units :: "(nat \<times> Detection list) list \<Rightarrow> Detection list list" where
  "output_units parts =
     repartition (num_partitions (length (concat (map snd parts)))) parts"

subsection \<open>Example inputs\<close>

text \<open>A reference table whose weights are 100, 99, ..., 1.\<close>

definition ref_hundred :: "ImportanceEntry list" where
  "ref_hundred =
     map (\<lambda>i. \<lparr>customer_id = ''C1'', merchant_id = ''M1'', weight = rat_of_int i\<rparr>) (rev [1..100])"

text \<open>One transaction of customer C1 at merchant M1, and a reference table for that pair.\<close>

definition txn_c1m1 :: TransactionRecord where
  "txn_c1m1 = \<lparr>customer = ''C1'', gender = ''M'', merchant = ''M1'', amount = 5\<rparr>"

definition ref_c1m1 :: "ImportanceEntry list" where
  "ref_c1m1 = [\<lparr>customer_id = ''C1'', merchant_id = ''M1'', weight = 1 / 2\<rparr>]"

text \<open>
  Transactions of one customer at one merchant: of amount 22.99 (the float nearest to
  it, \<open>12053381 / 2^19\<close>) and of amount 23.
\<close>

definition txn_2299 :: TransactionRecord where
  "txn_2299 =
     \<lparr>customer = ''C2'', gender = ''F'', merchant = ''M2'', amount = 12053381 / 2 ^ 19\<rparr>"

definition txn_23 :: TransactionRecord where
  "txn_23 = \<lparr>customer = ''C2'', gender = ''F'', merchant = ''M2'', amount = 23\<rparr>"

text \<open>
  Eighty transactions of one customer at one merchant whose amounts are floats with the
  exact sum \<open>1840 - 2^-43\<close>: three amounts that are not 0, then 77 of amount 0.
\<close>

definition txn_of_amount :: "rat \<Rightarrow> TransactionRecord" where
  "txn_of_amount a = \<lparr>customer = ''C2'', gender = ''F'', merchant = ''M2'', amount = a\<rparr>"

definition batch_rounding :: "TransactionRecord list" where
  "batch_rounding =
     map txn_of_amount
       ([1840 - 1 / 2 ^ 13, 1 / 2 ^ 13 - 1 / 2 ^ 37, 1 / 2 ^ 37 - 1 / 2 ^ 43] @ replicate 77 0)"

text \<open>A male and a female customer of merchant M3.\<close>

definition txn_male :: TransactionRecord where
  "txn_male = \<lparr>customer = ''C3'', gender = ''M'', merchant = ''M3'', amount = 40\<rparr>"

definition txn_female :: TransactionRecord where
  "txn_female = \<lparr>customer = ''C4'', gender = ''F'', merchant = ''M3'', amount = 40\<rparr>"

text \<open>An empty store with no failure scheduled, and a batch of three transactions of two merchants.\<close>

definition world0 :: world where
  "world0 = \<lparr>table = Map.empty, faults = [], calls = [], printed = [], broadcasts = [],
             writes = []\<rparr>"

definition batch_three :: "TransactionRecord list" where
  "batch_three = [txn_c1m1, txn_2299, txn_c1m1]"

text \<open>125 distinct detection rows.\<close>

definition rows_125 :: "Detection list" where
  "rows_125 = map (\<lambda>i. detection ''PatId3'' ''DEI-NEEDED'' [] (replicate i CHR ''m'')) [1..<126]"

text \<open>100 distinct detection rows in two input partitions, of 3 and of 97 rows.\<close>

definition parts_100 :: "(nat \<times> Detection list) list" where
  "parts_100 =
     [(0, map (\<lambda>i. detection ''PatId3'' ''DEI-NEEDED'' [] (replicate i CHR ''m'')) [1..<4]),
      (0, map (\<lambda>i. detection ''PatId3'' ''DEI-NEEDED'' [] (replicate i CHR ''m'')) [4..<101])]"

section \<open>Properties\<close>

subsection \<open>Percentile cut points\<close>

lemma bottom_index_less: "0 < n \<Longrightarrow> bottom_index n < n"
  by (simp add: bottom_index_def)

lemma top_index_less: "0 < n \<Longrightarrow> top_index n < n"
  by (simp add: top_index_def)

lemma customer_weights_length:
  "length (customer_weights df) = length df"
  by (simp add: customer_weights_def)

lemma customer_weights_perm:
  assumes "mset (map weight df) = mset ws" and "sorted ws"
  shows "customer_weights df = ws"
  unfolding customer_weights_def
  using assms by (intro properties_for_sort) simp_all

lemma sorted_one_to_hundred: "sorted (map rat_of_int [1..100])"
  by (simp add: sorted_map sorted_wrt_iff_nth_less)

lemma nth_one_to_hundred: "map rat_of_int [1..100] ! 1 = 2"
  by (simp add: nth_upto)

text \<open>
  C6. For a non-empty reference table of \<open>n\<close> rows the loader does not raise;
  bottomPct is the element at 0-based index \<open>n div 100\<close> and topPct the element at
  index \<open>99 * n div 100\<close> of the weights sorted ascending. When the weights are the
  numbers 1 to 100 in any order, bottomPct is 2, the second smallest.
\<close>

theorem percentile_cut_points:
  assumes "df \<noteq> []"
  shows "sorted (customer_weights df)
       \<and> mset (customer_weights df) = mset (map weight df)
       \<and> length df div 100 < length df
       \<and> 99 * length df div 100 < length df
       \<and> bottom_1_percentile_weight_threshold (customer_weights df)
           = Inr (Fin (customer_weights df ! (length df div 100)))
       \<and> top_1_percentile_weight_threshold (customer_weights df)
           = Inr (Fin (customer_weights df ! (99 * length df div 100)))
       \<and> (mset (map weight df) = mset (map rat_of_int [1..100]) \<longrightarrow>
            bottom_1_percentile_weight_threshold (customer_weights df) = Inr (Fin 2))"
proof -
  have n: "0 < length df" using assms by simp
  have ne: "customer_weights df \<noteq> []"
    using n customer_weights_length [of df] by auto
  have b: "bottom_1_percentile_weight_threshold (customer_weights df)
             = Inr (Fin (customer_weights df ! (length df div 100)))"
    using ne bottom_index_less [OF n]
    by (simp add: bottom_1_percentile_weight_threshold_def py_getitem_def
        customer_weights_length bottom_index_def)
  have t: "top_1_percentile_weight_threshold (customer_weights df)
             = Inr (Fin (customer_weights df ! (99 * length df div 100)))"
    using ne top_index_less [OF n]
    by (simp add: top_1_percentile_weight_threshold_def py_getitem_def
        customer_weights_length top_index_def)
  have h: "bottom_1_percentile_weight_threshold (customer_weights df) = Inr (Fin 2)"
    if m: "mset (map weight df) = mset (map rat_of_int [1..100])"
  proof -
    have cw: "customer_weights df = map rat_of_int [1..100]"
      by (rule customer_weights_perm) (simp_all only: m sorted_one_to_hundred)
    have "length df = 100"
      using customer_weights_length [of df] by (simp add: cw)
    then show ?thesis
      using b nth_one_to_hundred by (simp add: cw)
  qed
  show ?thesis
    using b t h bottom_index_less [OF n] top_index_less [OF n]
    by (simp add: customer_weights_def bottom_index_def top_index_def)
qed

theorem percentile_cut_points_witness:
  "bottom_1_percentile_weight_threshold (customer_weights ref_hundred) = Inr (Fin 2)
   \<and> top_1_percentile_weight_threshold (customer_weights ref_hundred)
      = Inr (Fin (customer_weights ref_hundred ! 99))"
proof -
  have ne: "ref_hundred \<noteq> []" by (simp add: ref_hundred_def)
  have len: "length ref_hundred = 100" by (simp add: ref_hundred_def)
  have m: "mset (map weight ref_hundred) = mset (map rat_of_int [1..100])"
    by (simp add: ref_hundred_def o_def del: upto.simps)
  note p = percentile_cut_points [OF ne]
  from p m have b:
    "bottom_1_percentile_weight_threshold (customer_weights ref_hundred) = Inr (Fin 2)"
    by blast
  from p have t: "top_1_percentile_weight_threshold (customer_weights ref_hundred)
      = Inr (Fin (customer_weights ref_hundred ! (99 * length ref_hundred div 100)))"
    by blast
  show ?thesis using b t by (simp add: len)
qed

subsection \<open>Pattern 1\<close>

lemma sql_and_Some: "sql_and (Some p) (Some q) = Some (p \<and> q)"
  by (cases p; cases q) simp_all

lemma keeps_and_le:
  "keeps (sql_and (sql_le w (Fin b)) (Some q)) = ((\<exists>x. w = Some x \<and> x \<le> b) \<and> q)"
proof (cases w)
  case None
  then show ?thesis by (cases q) (simp_all add: keeps_def)
next
  case (Some x)
  then show ?thesis by (simp add: keeps_def sql_and_Some)
qed

lemma twi_Some:
  "(t, Some x) \<in> set (transactions_with_importance df ci) \<longleftrightarrow>
     t \<in> set df \<and> (\<exists>e \<in> set ci. customer t = customer_id e \<and> merchant t = merchant_id e
        \<and> weight e = x)"
proof (induction df)
  case Nil
  then show ?case by (simp add: transactions_with_importance_def)
next
  case (Cons a df)
  have step: "transactions_with_importance (a # df) ci =
      (let ms = filter (\<lambda>e. customer a = customer_id e \<and> merchant a = merchant_id e) ci
       in if ms = [] then [(a, None)] else map (\<lambda>e. (a, Some (weight e))) ms)
      @ transactions_with_importance df ci"
    by (simp add: transactions_with_importance_def)
  show ?case
    unfolding step using Cons.IH
    by (auto simp: Let_def filter_empty_conv)
qed

lemma in_pat1_detections:
  "d \<in> set (pat1_detections df ci (Fin b) snap) \<longleftrightarrow>
     (\<exists>t x. (t, Some x) \<in> set (transactions_with_importance df ci) \<and> x \<le> b
        \<and> PAT1_MERCHANT_TXN_THRESHOLD < get_total_txns_udf snap (merchant t)
        \<and> d = detection ''PatId1'' ''UPGRADE'' (customer t) (merchant t))"
  unfolding pat1_detections_def set_remdups set_map set_filter image_iff
  by (simp add: keeps_and_le split_beta Bex_def) blast

lemma set_pat1_detections:
  "set (pat1_detections df ci (Fin b) snap) =
     {detection ''PatId1'' ''UPGRADE'' (customer t) (merchant t) | t.
        t \<in> set df
      \<and> (\<exists>e \<in> set ci. customer_id e = customer t \<and> merchant_id e = merchant t \<and> weight e \<le> b)
      \<and> PAT1_MERCHANT_TXN_THRESHOLD < get_total_txns_udf snap (merchant t)}"
proof (rule set_eqI)
  fix d
  show "d \<in> set (pat1_detections df ci (Fin b) snap) \<longleftrightarrow> d \<in> {detection ''PatId1'' ''UPGRADE'' (customer t) (merchant t) | t.
        t \<in> set df
      \<and> (\<exists>e \<in> set ci. customer_id e = customer t \<and> merchant_id e = merchant t \<and> weight e \<le> b)
      \<and> PAT1_MERCHANT_TXN_THRESHOLD < get_total_txns_udf snap (merchant t)}"
    unfolding in_pat1_detections twi_Some mem_Collect_eq
    by metis
qed

lemma detection_eq:
  "(detection p a c m = detection p' a' c' m') = (p = p' \<and> a = a' \<and> c = c' \<and> m = m')"
  by (auto simp: detection_def)

text \<open>
  C1. For every record of the batch, the detector emits the UPGRADE detection of the
  record's (customer, merchant) pair if and only if the reference table holds an entry
  for the pair whose weight is at most bottomPct (the bound included) and the merchant's
  count in the snapshot is strictly greater than 50000. A record whose pair has no
  reference entry gives no detection; every detection emitted is the one of some record
  of the batch, and none is emitted twice. The witness is the boundary: weight equal to
  bottomPct with a count of 50001 fires, a count of 50000 does not.
\<close>

theorem elevated_risk_detector:
  "(\<forall>t \<in> set df.
       detection ''PatId1'' ''UPGRADE'' (customer t) (merchant t)
         \<in> set (pat1_detections df ci (Fin b) snap)
       \<longleftrightarrow> (\<exists>e \<in> set ci. customer_id e = customer t \<and> merchant_id e = merchant t
                \<and> weight e \<le> b)
           \<and> 50000 < get_total_txns_udf snap (merchant t))
   \<and> (\<forall>t \<in> set df.
        (\<forall>e \<in> set ci. \<not> (customer_id e = customer t \<and> merchant_id e = merchant t)) \<longrightarrow>
        detection ''PatId1'' ''UPGRADE'' (customer t) (merchant t)
          \<notin> set (pat1_detections df ci (Fin b) snap))
   \<and> (\<forall>d \<in> set (pat1_detections df ci (Fin b) snap).
        \<exists>t \<in> set df. d = detection ''PatId1'' ''UPGRADE'' (customer t) (merchant t))
   \<and> distinct (pat1_detections df ci (Fin b) snap)"
proof -
  have iff: "detection ''PatId1'' ''UPGRADE'' (customer t) (merchant t)
         \<in> set (pat1_detections df ci (Fin b) snap)
       \<longleftrightarrow> (\<exists>e \<in> set ci. customer_id e = customer t \<and> merchant_id e = merchant t
                \<and> weight e \<le> b)
           \<and> 50000 < get_total_txns_udf snap (merchant t)" if t: "t \<in> set df" for t
  proof
    assume "detection ''PatId1'' ''UPGRADE'' (customer t) (merchant t)
         \<in> set (pat1_detections df ci (Fin b) snap)"
    then obtain t' where t': "t' \<in> set df" "customer t' = customer t" "merchant t' = merchant t"
      "\<exists>e \<in> set ci. customer_id e = customer t' \<and> merchant_id e = merchant t' \<and> weight e \<le> b"
      "PAT1_MERCHANT_TXN_THRESHOLD < get_total_txns_udf snap (merchant t')"
      unfolding set_pat1_detections mem_Collect_eq detection_eq by metis
    then show "(\<exists>e \<in> set ci. customer_id e = customer t \<and> merchant_id e = merchant t
                \<and> weight e \<le> b)
           \<and> 50000 < get_total_txns_udf snap (merchant t)"
      by (simp add: PAT1_MERCHANT_TXN_THRESHOLD_def)
  next
    assume "(\<exists>e \<in> set ci. customer_id e = customer t \<and> merchant_id e = merchant t
                \<and> weight e \<le> b)
           \<and> 50000 < get_total_txns_udf snap (merchant t)"
    with t show "detection ''PatId1'' ''UPGRADE'' (customer t) (merchant t)
         \<in> set (pat1_detections df ci (Fin b) snap)"
      unfolding set_pat1_detections mem_Collect_eq PAT1_MERCHANT_TXN_THRESHOLD_def by blast
  qed
  have only: "\<exists>t \<in> set df. d = detection ''PatId1'' ''UPGRADE'' (customer t) (merchant t)"
    if "d \<in> set (pat1_detections df ci (Fin b) snap)" for d
    using that unfolding set_pat1_detections mem_Collect_eq by blast
  have dist: "distinct (pat1_detections df ci (Fin b) snap)"
    by (simp add: pat1_detections_def)
  from iff only dist show ?thesis by blast
qed

theorem elevated_risk_detector_witness:
  "detection ''PatId1'' ''UPGRADE'' ''C1'' ''M1''
     \<in> set (pat1_detections [txn_c1m1] ref_c1m1 (Fin (1 / 2)) [''M1'' \<mapsto> 50001])
   \<and> detection ''PatId1'' ''UPGRADE'' ''C1'' ''M1''
     \<notin> set (pat1_detections [txn_c1m1] ref_c1m1 (Fin (1 / 2)) [''M1'' \<mapsto> 50000])
   \<and> detection ''PatId1'' ''UPGRADE'' ''C1'' ''M1''
     \<notin> set (pat1_detections [txn_c1m1] [] (Fin (1 / 2)) [''M1'' \<mapsto> 50001])"
  using elevated_risk_detector [of "[txn_c1m1]" ref_c1m1 "1 / 2" "[''M1'' \<mapsto> 50001]"]
    elevated_risk_detector [of "[txn_c1m1]" ref_c1m1 "1 / 2" "[''M1'' \<mapsto> 50000]"]
    elevated_risk_detector [of "[txn_c1m1]" "[]" "1 / 2" "[''M1'' \<mapsto> 50001]"]
  by (simp add: txn_c1m1_def ref_c1m1_def get_total_txns_udf_def)

text \<open>
  C10. With an empty reference table the loader does not raise: bottomPct is 0 and
  topPct is positive infinity. With bottomPct = 0 every PatId1 detection comes from a
  reference entry of weight at most 0, and with the empty table (every joined weight
  NULL) there is none.
\<close>

theorem empty_reference_defaults:
  "customer_weights [] = []
   \<and> (customer_weights ci = [] \<longleftrightarrow> ci = [])
   \<and> bottom_1_percentile_weight_threshold (customer_weights []) = Inr (Fin 0)
   \<and> top_1_percentile_weight_threshold (customer_weights []) = Inr PosInf
   \<and> pat1_detections df [] (Fin 0) snap = []
   \<and> (\<forall>d \<in> set (pat1_detections df ci (Fin 0) snap).
        \<exists>e \<in> set ci. customer_id e = customerName d \<and> merchant_id e = MerchantId d
           \<and> weight e \<le> 0)"
proof -
  have a: "customer_weights ci = [] \<longleftrightarrow> ci = []"
    using customer_weights_length [of ci] by (metis length_0_conv)
  have b: "pat1_detections df [] (Fin 0) snap = []"
    using set_pat1_detections [of df "[]" 0 snap] by simp
  have c: "\<exists>e \<in> set ci. customer_id e = customerName d \<and> merchant_id e = MerchantId d
           \<and> weight e \<le> 0" if "d \<in> set (pat1_detections df ci (Fin 0) snap)" for d
  proof -
    from that have "\<exists>t::TransactionRecord. d = detection ''PatId1'' ''UPGRADE'' (customer t) (merchant t)
      \<and> (\<exists>e \<in> set ci. customer_id e = customer t \<and> merchant_id e = merchant t \<and> weight e \<le> 0)"
      unfolding set_pat1_detections mem_Collect_eq by fast
    then show ?thesis by (auto simp: detection_def)
  qed
  show ?thesis
    using a b c
    by (simp add: customer_weights_def bottom_1_percentile_weight_threshold_def
        top_1_percentile_weight_threshold_def)
qed

theorem empty_reference_defaults_witness:
  "pat1_detections [txn_c1m1] [] (Fin 0) [''M1'' \<mapsto> 50001] = []
   \<and> pat1_detections [txn_c1m1] ref_c1m1 (Fin 0) [''M1'' \<mapsto> 50001] = []"
proof -
  note p = empty_reference_defaults [of "[]" "[txn_c1m1]" "[''M1'' \<mapsto> 50001]"]
  note q = empty_reference_defaults [of ref_c1m1 "[txn_c1m1]" "[''M1'' \<mapsto> 50001]"]
  have "pat1_detections [txn_c1m1] ref_c1m1 (Fin 0) [''M1'' \<mapsto> 50001] = []"
  proof (cases "pat1_detections [txn_c1m1] ref_c1m1 (Fin 0) [''M1'' \<mapsto> 50001]")
    case Nil
    then show ?thesis .
  next
    case (Cons d ds)
    then have "d \<in> set (pat1_detections [txn_c1m1] ref_c1m1 (Fin 0) [''M1'' \<mapsto> 50001])"
      by simp
    with q have "\<exists>e \<in> set ref_c1m1. customer_id e = customerName d \<and> merchant_id e = MerchantId d
           \<and> weight e \<le> 0" by blast
    then show ?thesis by (simp add: ref_c1m1_def)
  qed
  with p show ?thesis by simp
qed

subsection \<open>Double precision\<close>

lemma two_powi_eq: "two_powi e = 2 powi e"
proof (cases "0 \<le> e")
  case True
  then show ?thesis by (simp add: two_powi_def power_int_def)
next
  case False
  then show ?thesis by (simp add: two_powi_def power_int_def field_simps)
qed

lemma ilog2_lower:
  assumes "0 < x"
  shows "two_powi (ilog2 x) \<le> x"
proof -
  obtain p q where pq: "quotient_of x = (p, q)" by (cases "quotient_of x")
  then have q: "0 < q" and x: "x = of_int p / of_int q"
    by (auto intro: quotient_of_denom_pos quotient_of_div)
  from assms x q have p: "0 < p" by (simp add: zero_less_divide_iff)
  define d where "d = bitlen p - bitlen q"
  show ?thesis
  proof (cases "two_powi d \<le> x")
    case True
    then show ?thesis by (simp add: ilog2_def pq d_def)
  next
    case False
    then have e: "ilog2 x = d - 1" by (simp add: ilog2_def pq d_def)
    from bitlen_bounds [OF p] have lo: "(2::int) ^ nat (bitlen p - 1) \<le> p" by simp
    from bitlen_bounds [OF q] have hi: "q < (2::int) ^ nat (bitlen q)" by simp
    have bp: "1 \<le> bitlen p" using p by (simp add: bitlen_alt_def)
    have "d - 1 = (bitlen p - 1) - bitlen q" by (simp add: d_def)
    then have "two_powi (d - 1) = 2 powi (bitlen p - 1) / 2 powi (bitlen q)"
      by (simp only: two_powi_eq) (rule power_int_diff, simp)
    also have "\<dots> = (2::rat) ^ nat (bitlen p - 1) / 2 ^ nat (bitlen q)"
      using bp bitlen_nonneg [of q] by (simp add: power_int_def)
    also have "\<dots> \<le> of_int p / of_int q"
    proof -
      from lo have "rat_of_int (2 ^ nat (bitlen p - 1)) \<le> of_int p" by (simp only: of_int_le_iff)
      then have a: "(2::rat) ^ nat (bitlen p - 1) \<le> of_int p" by simp
      from hi have "rat_of_int q \<le> of_int (2 ^ nat (bitlen q))" by (simp only: of_int_le_iff)
      then have b: "rat_of_int q \<le> 2 ^ nat (bitlen q)" by simp
      have c: "0 \<le> rat_of_int p" using p by simp
      have d: "0 < rat_of_int q" using q by simp
      show ?thesis by (rule frac_le [OF c a d b])
    qed
    finally have "two_powi (d - 1) \<le> x" by (simp only: x)
    then show ?thesis by (simp only: e)
  qed
qed

lemma round_half_even_of_int: "round_half_even (of_int n) = n"
  by (simp add: round_half_even_def)

lemma round_double_dyadic:
  assumes m: "\<bar>m\<bar> < 2 ^ 53"
  shows "round_double (of_int m / 2 ^ k) = of_int m / 2 ^ k"
proof (cases "m = 0")
  case True
  then show ?thesis by (simp add: round_double_def)
next
  case False
  define x :: rat where "x = of_int m / 2 ^ k"
  have x0: "x \<noteq> 0" using False by (simp add: x_def)
  have ax: "\<bar>x\<bar> = of_int \<bar>m\<bar> * 2 powi (- int k)"
    by (simp add: x_def power_int_minus divide_inverse abs_mult)
  define e where "e = ilog2 \<bar>x\<bar>"
  have "2 powi e \<le> \<bar>x\<bar>"
    using ilog2_lower [of "\<bar>x\<bar>"] x0 by (simp add: e_def two_powi_eq)
  also have "\<bar>x\<bar> < 2 ^ 53 * 2 powi (- int k)"
  proof -
    from m have "rat_of_int \<bar>m\<bar> < of_int (2 ^ 53)" by (simp only: of_int_less_iff)
    then show ?thesis unfolding ax by (simp add: mult_strict_right_mono)
  qed
  also have "\<dots> = 2 powi (53 - int k)"
    by (simp add: power_int_diff power_int_minus divide_inverse)
  finally have lt: "(2::rat) powi e < 2 powi (53 - int k)" .
  have "e < 53 - int k"
  proof (rule ccontr)
    assume "\<not> e < 53 - int k"
    then have "53 - int k \<le> e" by simp
    then have "(2::rat) powi (53 - int k) \<le> 2 powi e"
      by (rule power_int_increasing) simp
    with lt show False by simp
  qed
  define j where "j = nat (52 - int k - e)"
  with \<open>e < 53 - int k\<close> have j: "int j = 52 - int k - e" by simp
  have u: "two_powi (e - 52) = 2 powi (e - 52)" by (rule two_powi_eq)
  have "\<bar>x\<bar> / 2 powi (e - 52) = of_int \<bar>m\<bar> * (2 powi (- int k) / 2 powi (e - 52))"
    by (simp add: ax)
  also have "2 powi (- int k) / 2 powi (e - 52) = (2::rat) powi (int j)"
  proof -
    have "(2::rat) powi (- int k - (e - 52)) = 2 powi (- int k) / 2 powi (e - 52)"
      by (rule power_int_diff) simp
    moreover have "- int k - (e - 52) = int j" by (simp add: j)
    ultimately show ?thesis by simp
  qed
  finally have q: "\<bar>x\<bar> / 2 powi (e - 52) = of_int (\<bar>m\<bar> * 2 ^ j)"
    by simp
  have "round_double x = sgn x * of_int (\<bar>m\<bar> * 2 ^ j) * 2 powi (e - 52)"
    using x0 by (simp add: round_double_def Let_def e_def [symmetric] u q round_half_even_of_int
        del: of_int_mult of_int_power)
  also have "of_int (\<bar>m\<bar> * 2 ^ j) = \<bar>x\<bar> / 2 powi (e - 52)"
    by (simp only: q)
  also have "sgn x * (\<bar>x\<bar> / 2 powi (e - 52)) * 2 powi (e - 52) = x"
    by (simp add: mult_sgn_abs)
  finally show ?thesis by (simp add: x_def)
qed

lemma double_sum_snoc: "double_sum (xs @ [a]) = round_double (double_sum xs + a)"
  by (simp add: double_sum_def)

text \<open>Adding equal amounts does not round while the multiples stay below \<open>2^53\<close> units.\<close>

lemma double_sum_replicate:
  assumes "int n * \<bar>m\<bar> < 2 ^ 53"
  shows "double_sum (replicate n (of_int m / 2 ^ k)) = of_nat n * (of_int m / 2 ^ k)"
  using assms
proof (induction n)
  case 0
  then show ?case by (simp add: double_sum_def)
next
  case (Suc n)
  have le: "int n * \<bar>m\<bar> \<le> int (Suc n) * \<bar>m\<bar>"
    by (intro mult_right_mono) simp_all
  with Suc.prems have "int n * \<bar>m\<bar> < 2 ^ 53" by linarith
  then have IH: "double_sum (replicate n (of_int m / 2 ^ k)) = of_nat n * (of_int m / 2 ^ k)"
    by (rule Suc.IH)
  have b: "\<bar>int (Suc n) * m\<bar> < 2 ^ 53"
    using Suc.prems by (simp add: abs_mult)
  have snoc: "replicate (Suc n) (rat_of_int m / 2 ^ k)
      = replicate n (of_int m / 2 ^ k) @ [of_int m / 2 ^ k]"
    by (simp add: replicate_append_same)
  have "double_sum (replicate (Suc n) (of_int m / 2 ^ k))
      = round_double (of_nat n * (of_int m / 2 ^ k) + of_int m / 2 ^ k)"
    unfolding snoc double_sum_snoc IH ..
  also have "of_nat n * (rat_of_int m / 2 ^ k) + of_int m / 2 ^ k
      = of_int (int (Suc n) * m) / 2 ^ k"
    by (simp add: field_simps)
  also have "round_double \<dots> = of_int (int (Suc n) * m) / 2 ^ k"
    by (rule round_double_dyadic [OF b])
  also have "\<dots> = of_nat (Suc n) * (of_int m / 2 ^ k)"
    by simp
  finally show ?case .
qed

text \<open>Adding 0 to a double leaves it.\<close>

lemma double_sum_zeros:
  assumes "round_double (double_sum xs) = double_sum xs"
  shows "double_sum (xs @ replicate n 0) = double_sum xs"
proof (induction n)
  case 0
  then show ?case by simp
next
  case (Suc n)
  have "double_sum (xs @ replicate (Suc n) 0) = double_sum ((xs @ replicate n 0) @ [0])"
    by (simp add: replicate_append_same)
  also have "\<dots> = round_double (double_sum (xs @ replicate n 0) + 0)"
    by (rule double_sum_snoc)
  finally show ?case by (simp add: Suc.IH assms)
qed

text \<open>The three additions of the example; the last one rounds a tie to the even double.\<close>

lemma double_sum_rounding:
  "double_sum [1840 - 1 / 2 ^ 13, 1 / 2 ^ 13 - 1 / 2 ^ 37, 1 / 2 ^ 37 - 1 / 2 ^ 43] = 1840"
  by code_simp

subsection \<open>Pattern 2\<close>

lemma keeps_and_lt:
  "keeps (sql_and (sql_lt a b) (Some q)) = ((\<exists>x. a = Some x \<and> x < b) \<and> q)"
proof (cases a)
  case None
  then show ?thesis by (cases q) (simp_all add: keeps_def)
next
  case (Some x)
  then show ?thesis by (simp add: keeps_def sql_and_Some)
qed

lemma in_customer_merchant_stats:
  "(c, m, a, n) \<in> set (customer_merchant_stats df) \<longleftrightarrow>
     (\<exists>t \<in> set df. customer t = c \<and> merchant t = m)
     \<and> a = avg (map amount (filter (\<lambda>t. customer t = c \<and> merchant t = m) df))
     \<and> n = int (length (filter (\<lambda>t. customer t = c \<and> merchant t = m) df))"
  unfolding customer_merchant_stats_def set_map set_remdups image_iff Bex_def
  by (simp add: Let_def split_beta) metis

lemma in_pat2_detections:
  "d \<in> set (pat2_detections df) \<longleftrightarrow>
     (\<exists>c m a n. (c, m, a, n) \<in> set (customer_merchant_stats df)
        \<and> (\<exists>x. a = Some x \<and> x < PAT2_AVG_TXN_VALUE_THRESHOLD) \<and> PAT2_MIN_TXN_COUNT \<le> n
        \<and> d = detection ''PatId2'' ''CHILD'' c m)"
  unfolding pat2_detections_def set_remdups set_map set_filter image_iff
  by (simp add: keeps_and_lt split_beta Bex_def)

lemma avg_Some:
  "avg xs = Some x \<longleftrightarrow>
     xs \<noteq> [] \<and> x = round_double (double_sum xs / of_nat (length xs))"
  by (auto simp: avg_def)

lemma low_value_iff:
  "detection ''PatId2'' ''CHILD'' c m \<in> set (pat2_detections df) \<longleftrightarrow>
     (let g = filter (\<lambda>t. customer t = c \<and> merchant t = m) df
      in round_double (double_sum (map amount g) / of_nat (length g)) < 23
         \<and> 80 \<le> length g)"
  (is "?L \<longleftrightarrow> ?R")
proof
  let ?g = "filter (\<lambda>t. customer t = c \<and> merchant t = m) df"
  assume ?L
  then obtain c' m' a n where s: "(c', m', a, n) \<in> set (customer_merchant_stats df)"
    and a: "\<exists>x. a = Some x \<and> x < PAT2_AVG_TXN_VALUE_THRESHOLD"
    and n: "PAT2_MIN_TXN_COUNT \<le> n"
    and d: "detection ''PatId2'' ''CHILD'' c m = detection ''PatId2'' ''CHILD'' c' m'"
    unfolding in_pat2_detections by blast
  from d have eq: "c' = c" "m' = m" by (simp_all add: detection_eq)
  from s have a': "a = avg (map amount ?g)" and n': "n = int (length ?g)"
    unfolding in_customer_merchant_stats eq by simp_all
  from a a' have "round_double (double_sum (map amount ?g) / of_nat (length ?g)) < 23"
    by (auto simp: avg_Some PAT2_AVG_TXN_VALUE_THRESHOLD_def)
  moreover from n n' have "80 \<le> length ?g"
    by (simp add: PAT2_MIN_TXN_COUNT_def)
  ultimately show ?R by (simp add: Let_def)
next
  let ?g = "filter (\<lambda>t. customer t = c \<and> merchant t = m) df"
  assume ?R
  then have lt: "round_double (double_sum (map amount ?g) / of_nat (length ?g)) < 23"
    and ge: "80 \<le> length ?g"
    by (simp_all add: Let_def)
  from ge have ne: "?g \<noteq> []" by auto
  then obtain t where "t \<in> set ?g" by (cases ?g) auto
  then have ex: "\<exists>t \<in> set df. customer t = c \<and> merchant t = m" by auto
  have s: "(c, m, avg (map amount ?g), int (length ?g)) \<in> set (customer_merchant_stats df)"
    unfolding in_customer_merchant_stats using ex by simp
  have a: "\<exists>x. avg (map amount ?g) = Some x \<and> x < PAT2_AVG_TXN_VALUE_THRESHOLD"
    using ne lt by (simp add: avg_def PAT2_AVG_TXN_VALUE_THRESHOLD_def)
  have n: "PAT2_MIN_TXN_COUNT \<le> int (length ?g)"
    using ge by (simp add: PAT2_MIN_TXN_COUNT_def)
  show ?L
    unfolding in_pat2_detections using s a n by blast
qed

text \<open>
  C5 (as amended). The detector emits the CHILD detection of a (customer, merchant)
  pair if and only if, over the rows of the batch with that pair, the number of rows is
  at least 80 and the mean that \<^verbatim>\<open>avg\<close> computes is strictly below 23: the amounts
  added in double precision in the order of the rows, each sum rounded to the nearest
  double, and the last sum divided by the count and rounded. Every detection emitted
  is the one of a pair present in the batch, and none is emitted twice. The witness is
  the boundary: 80 rows of 22.99 fire, 79 rows of 22.99 do not, 80 rows of exactly 23
  do not.
\<close>

theorem low_value_high_frequency_detector:
  "(detection ''PatId2'' ''CHILD'' c m \<in> set (pat2_detections df) \<longleftrightarrow>
     (let g = filter (\<lambda>t. customer t = c \<and> merchant t = m) df
      in round_double (double_sum (map amount g) / of_nat (length g)) < 23
         \<and> 80 \<le> length g))
   \<and> (\<forall>d \<in> set (pat2_detections df).
        \<exists>t \<in> set df. d = detection ''PatId2'' ''CHILD'' (customer t) (merchant t))
   \<and> distinct (pat2_detections df)"
proof -
  have only: "\<exists>t \<in> set df. d = detection ''PatId2'' ''CHILD'' (customer t) (merchant t)"
    if "d \<in> set (pat2_detections df)" for d
  proof -
    from that obtain c m a n where "(c, m, a, n) \<in> set (customer_merchant_stats df)"
      and d: "d = detection ''PatId2'' ''CHILD'' c m"
      unfolding in_pat2_detections by blast
    then have "\<exists>t \<in> set df. customer t = c \<and> merchant t = m"
      unfolding in_customer_merchant_stats by simp
    with d show ?thesis by auto
  qed
  have "distinct (pat2_detections df)" by (simp add: pat2_detections_def)
  with only low_value_iff [of c m df] show ?thesis by blast
qed

theorem low_value_high_frequency_detector_witness:
  "detection ''PatId2'' ''CHILD'' ''C2'' ''M2'' \<in> set (pat2_detections (replicate 80 txn_2299))
   \<and> detection ''PatId2'' ''CHILD'' ''C2'' ''M2'' \<notin> set (pat2_detections (replicate 79 txn_2299))
   \<and> detection ''PatId2'' ''CHILD'' ''C2'' ''M2'' \<notin> set (pat2_detections (replicate 80 txn_23))"
proof -
  have s80: "double_sum (replicate 80 (12053381 / 524288)) = 80 * (12053381 / 524288)"
    using double_sum_replicate [of 80 12053381 19] by simp
  have m80: "round_double (12053381 / 524288) = 12053381 / 524288"
    using round_double_dyadic [of 12053381 19] by simp
  have s23: "double_sum (replicate 80 23) = 80 * 23"
    using double_sum_replicate [of 80 23 0] by simp
  have m23: "round_double 23 = 23"
    using round_double_dyadic [of 23 0] by simp
  show ?thesis
    using low_value_high_frequency_detector [of "''C2''" "''M2''" "replicate 80 txn_2299"]
      low_value_high_frequency_detector [of "''C2''" "''M2''" "replicate 79 txn_2299"]
      low_value_high_frequency_detector [of "''C2''" "''M2''" "replicate 80 txn_23"]
    by (simp add: txn_2299_def txn_23_def s80 m80 s23 m23)
qed

text \<open>
  The claim as stated decides on the mean of the amounts. The 80 rows of
  \<^const>\<open>batch_rounding\<close> have a mean below 23, but their double-precision sum is
  1840.0 (the last addition that is not of 0 rounds up), so \<^verbatim>\<open>avg\<close> is 23.0 and no
  detection is emitted.
\<close>

theorem low_value_rounding_counterexample:
  "sum_list (map amount (filter (\<lambda>t. customer t = ''C2'' \<and> merchant t = ''M2'') batch_rounding))
     / of_nat (length (filter (\<lambda>t. customer t = ''C2'' \<and> merchant t = ''M2'') batch_rounding))
     < 23
   \<and> 80 \<le> length (filter (\<lambda>t. customer t = ''C2'' \<and> merchant t = ''M2'') batch_rounding)
   \<and> detection ''PatId2'' ''CHILD'' ''C2'' ''M2'' \<notin> set (pat2_detections batch_rounding)"
proof -
  let ?xs = "[1840 - 1 / 2 ^ 13, 1 / 2 ^ 13 - 1 / 2 ^ 37, 1 / 2 ^ 37 - 1 / 2 ^ 43] :: rat list"
  have g: "filter (\<lambda>t. customer t = ''C2'' \<and> merchant t = ''M2'') batch_rounding = batch_rounding"
    by (intro filter_True) (auto simp: batch_rounding_def txn_of_amount_def)
  have am: "map amount batch_rounding = ?xs @ replicate 77 0"
    by (simp add: batch_rounding_def txn_of_amount_def o_def)
  have len: "length batch_rounding = 80"
    by (simp add: batch_rounding_def)
  have r: "round_double 1840 = 1840" "round_double 23 = 23"
    using round_double_dyadic [of 1840 0] round_double_dyadic [of 23 0] by simp_all
  have fixed: "round_double (double_sum ?xs) = double_sum ?xs"
    unfolding double_sum_rounding by (rule r(1))
  have "double_sum (?xs @ replicate 77 0) = double_sum ?xs"
    by (rule double_sum_zeros [OF fixed])
  then have ds: "double_sum (map amount batch_rounding) = 1840"
    unfolding am double_sum_rounding .
  have mean: "sum_list (map amount batch_rounding) / of_nat (length batch_rounding) < 23"
    unfolding am len by (simp add: sum_list_replicate)
  have "detection ''PatId2'' ''CHILD'' ''C2'' ''M2'' \<notin> set (pat2_detections batch_rounding)"
    unfolding low_value_iff g by (simp add: Let_def ds len r)
  with mean len show ?thesis unfolding g by simp
qed

subsection \<open>Pattern 3\<close>

lemma filter_key_distinct:
  "distinct ks \<Longrightarrow> filter (\<lambda>k. k = x) ks = (if x \<in> set ks then [x] else [])"
  by (induction ks) auto

lemma gender_counts_filter:
  assumes g: "g \<in> {''M'', ''F''}"
  shows "map (\<lambda>(m', g', n). n)
           (filter (\<lambda>(m', g', n). m' = m \<and> g' = g) (gender_counts_per_merchant df))
         = (if \<exists>t \<in> set df. merchant t = m \<and> gender t = g
            then [int (length (filter (\<lambda>t. merchant t = m \<and> gender t = g) df))] else [])"
proof -
  let ?df = "filter (\<lambda>t. gender t \<in> {''M'', ''F''}) df"
  let ?ks = "remdups (map (\<lambda>t. (merchant t, gender t)) ?df)"
  let ?row = "\<lambda>(m, g). (m, g, int (length (filter (\<lambda>t. merchant t = m \<and> gender t = g) ?df)))"
  have gc: "gender_counts_per_merchant df = map ?row ?ks"
    by (simp add: gender_counts_per_merchant_def Let_def)
  have sel: "filter (\<lambda>(m', g', n). m' = m \<and> g' = g) (map ?row ?ks)
      = map ?row (filter (\<lambda>k. k = (m, g)) ?ks)"
    by (simp add: filter_map o_def split_beta prod_eq_iff)
  have ks: "filter (\<lambda>k. k = (m, g)) ?ks = (if (m, g) \<in> set ?ks then [(m, g)] else [])"
    by (rule filter_key_distinct) simp
  have mem: "(m, g) \<in> set ?ks \<longleftrightarrow> (\<exists>t \<in> set df. merchant t = m \<and> gender t = g)"
    using g by auto
  have cnt: "filter (\<lambda>x. (gender x = ''M'' \<or> gender x = ''F'') \<and> merchant x = m \<and> gender x = g) df
      = filter (\<lambda>t. merchant t = m \<and> gender t = g) df"
    using g by (auto intro: filter_cong)
  show ?thesis
    unfolding gc sel ks mem by (simp add: cnt)
qed

lemma no_rows_length:
  "\<not> (\<exists>t \<in> set df. P t) \<Longrightarrow> length (filter P df) = 0"
  by (simp add: filter_empty_conv)

lemma pivot_column:
  assumes g: "g \<in> {''M'', ''F''}"
  shows "fillna0 (spark_sum (map (\<lambda>(m', g', n). n)
           (filter (\<lambda>(m', g', n). m' = m \<and> g' = g) (gender_counts_per_merchant df))))
         = int (length (filter (\<lambda>t. merchant t = m \<and> gender t = g) df))"
  unfolding gender_counts_filter [OF g]
  using no_rows_length [of df "\<lambda>t. merchant t = m \<and> gender t = g"]
  by (simp add: fillna0_def spark_sum_def)

lemma pivot_merchants:
  "set (map (\<lambda>(m', g, n). m') (gender_counts_per_merchant df))
     = {merchant t | t. t \<in> set df \<and> gender t \<in> {''M'', ''F''}}"
  by (force simp: gender_counts_per_merchant_def Let_def split_beta image_iff)

lemma in_pivot_shape:
  "(m, M, F) \<in> set (pivoted_gender_counts gc) \<longleftrightarrow>
     m \<in> set (map (\<lambda>(m', g, n). m') gc)
     \<and> M = fillna0 (spark_sum (map (\<lambda>(m', g, n). n)
           (filter (\<lambda>(m', g, n). m' = m \<and> g = ''M'') gc)))
     \<and> F = fillna0 (spark_sum (map (\<lambda>(m', g, n). n)
           (filter (\<lambda>(m', g, n). m' = m \<and> g = ''F'') gc)))"
  unfolding pivoted_gender_counts_def set_map set_remdups by blast

lemma in_pivoted_gender_counts:
  "(m, M, F) \<in> set (pivoted_gender_counts (gender_counts_per_merchant df)) \<longleftrightarrow>
     (\<exists>t \<in> set df. merchant t = m \<and> gender t \<in> {''M'', ''F''})
     \<and> M = int (length (filter (\<lambda>t. merchant t = m \<and> gender t = ''M'') df))
     \<and> F = int (length (filter (\<lambda>t. merchant t = m \<and> gender t = ''F'') df))"
proof -
  have gM: "''M'' \<in> {''M'', ''F''}" and gF: "''F'' \<in> {''M'', ''F''}" by simp_all
  have "(m, M, F) \<in> set (pivoted_gender_counts (gender_counts_per_merchant df)) \<longleftrightarrow>
     m \<in> set (map (\<lambda>(m', g, n). m') (gender_counts_per_merchant df))
     \<and> M = int (length (filter (\<lambda>t. merchant t = m \<and> gender t = ''M'') df))
     \<and> F = int (length (filter (\<lambda>t. merchant t = m \<and> gender t = ''F'') df))"
    unfolding in_pivot_shape pivot_column [OF gM] pivot_column [OF gF] ..
  then show ?thesis
    unfolding pivot_merchants by auto
qed

lemma in_pat3_detections:
  "d \<in> set (pat3_detections df) \<longleftrightarrow>
     (\<exists>m M F. (m, M, F) \<in> set (pivoted_gender_counts (gender_counts_per_merchant df))
        \<and> F < M \<and> d = detection ''PatId3'' ''DEI-NEEDED'' [] m)"
  unfolding pat3_detections_def set_remdups set_map set_filter image_iff
  by (simp add: split_beta Bex_def)

lemma gender_imbalance_iff:
  "detection ''PatId3'' ''DEI-NEEDED'' [] m \<in> set (pat3_detections df) \<longleftrightarrow>
     length (filter (\<lambda>t. merchant t = m \<and> gender t = ''F'') df)
       < length (filter (\<lambda>t. merchant t = m \<and> gender t = ''M'') df)"
  (is "?L \<longleftrightarrow> ?R")
proof
  assume ?L
  then show ?R
    unfolding in_pat3_detections in_pivoted_gender_counts detection_eq by auto
next
  assume r: ?R
  then have "filter (\<lambda>t. merchant t = m \<and> gender t = ''M'') df \<noteq> []" by auto
  then obtain t where "t \<in> set (filter (\<lambda>t. merchant t = m \<and> gender t = ''M'') df)"
    by (cases "filter (\<lambda>t. merchant t = m \<and> gender t = ''M'') df") auto
  then have "\<exists>t \<in> set df. merchant t = m \<and> gender t \<in> {''M'', ''F''}" by auto
  with r show ?L
    unfolding in_pat3_detections in_pivoted_gender_counts by auto
qed

text \<open>
  C2 (as amended). Among the rows of the batch with gender M or F, a count that is
  missing after the pivot is filled with 0. The detector therefore emits the DEI-NEEDED
  detection of a merchant if and only if the merchant's number of female rows is strictly
  smaller than its number of male rows: a merchant with male rows only is detected, a
  merchant without male rows is not. Every detection is the one of the merchant of some
  male row, and none is emitted twice.
\<close>

theorem gender_imbalance_detector:
  "(detection ''PatId3'' ''DEI-NEEDED'' [] m \<in> set (pat3_detections df) \<longleftrightarrow>
      length (filter (\<lambda>t. merchant t = m \<and> gender t = ''F'') df)
        < length (filter (\<lambda>t. merchant t = m \<and> gender t = ''M'') df))
   \<and> ((\<forall>t \<in> set df. merchant t = m \<longrightarrow> gender t \<noteq> ''M'') \<longrightarrow>
        detection ''PatId3'' ''DEI-NEEDED'' [] m \<notin> set (pat3_detections df))
   \<and> (\<forall>d \<in> set (pat3_detections df).
        \<exists>t \<in> set df. gender t = ''M'' \<and> d = detection ''PatId3'' ''DEI-NEEDED'' [] (merchant t))
   \<and> distinct (pat3_detections df)"
proof -
  have none: "detection ''PatId3'' ''DEI-NEEDED'' [] m \<notin> set (pat3_detections df)"
    if "\<forall>t \<in> set df. merchant t = m \<longrightarrow> gender t \<noteq> ''M''"
  proof -
    from that have "filter (\<lambda>t. merchant t = m \<and> gender t = ''M'') df = []"
      by (auto simp: filter_empty_conv)
    then show ?thesis unfolding gender_imbalance_iff by simp
  qed
  have only: "\<exists>t \<in> set df. gender t = ''M'' \<and> d = detection ''PatId3'' ''DEI-NEEDED'' [] (merchant t)"
    if "d \<in> set (pat3_detections df)" for d
  proof -
    from that obtain m' where d: "d = detection ''PatId3'' ''DEI-NEEDED'' [] m'"
      unfolding in_pat3_detections by blast
    with that have "length (filter (\<lambda>t. merchant t = m' \<and> gender t = ''F'') df)
        < length (filter (\<lambda>t. merchant t = m' \<and> gender t = ''M'') df)"
      unfolding gender_imbalance_iff [symmetric] by simp
    then have "filter (\<lambda>t. merchant t = m' \<and> gender t = ''M'') df \<noteq> []" by auto
    then obtain t where "t \<in> set (filter (\<lambda>t. merchant t = m' \<and> gender t = ''M'') df)"
      by (cases "filter (\<lambda>t. merchant t = m' \<and> gender t = ''M'') df") auto
    with d show ?thesis by auto
  qed
  have "distinct (pat3_detections df)" by (simp add: pat3_detections_def)
  with none only gender_imbalance_iff [of m df] show ?thesis by blast
qed

theorem gender_imbalance_detector_witness:
  "detection ''PatId3'' ''DEI-NEEDED'' [] ''M3''
     \<in> set (pat3_detections (replicate 10 txn_male @ replicate 9 txn_female))
   \<and> detection ''PatId3'' ''DEI-NEEDED'' [] ''M3''
     \<notin> set (pat3_detections (replicate 10 txn_male @ replicate 10 txn_female))
   \<and> detection ''PatId3'' ''DEI-NEEDED'' [] ''M3''
     \<notin> set (pat3_detections (replicate 10 txn_female))"
  using gender_imbalance_detector [of "''M3''" "replicate 10 txn_male @ replicate 9 txn_female"]
    gender_imbalance_detector [of "''M3''" "replicate 10 txn_male @ replicate 10 txn_female"]
    gender_imbalance_detector [of "''M3''" "replicate 10 txn_female"]
  by (simp add: txn_male_def txn_female_def)

text \<open>
  The claim as stated asks for both counts to be present. A batch of one male row of
  merchant M1 gives the detection although the merchant has no female row.
\<close>

theorem gender_imbalance_single_gender_counterexample:
  "pat3_detections [txn_c1m1] = [detection ''PatId3'' ''DEI-NEEDED'' [] ''M1'']
   \<and> \<not> (detection ''PatId3'' ''DEI-NEEDED'' [] ''M1'' \<in> set (pat3_detections [txn_c1m1]) \<longleftrightarrow>
        0 < length (filter (\<lambda>t. merchant t = ''M1'' \<and> gender t = ''M'') [txn_c1m1])
      \<and> 0 < length (filter (\<lambda>t. merchant t = ''M1'' \<and> gender t = ''F'') [txn_c1m1])
      \<and> length (filter (\<lambda>t. merchant t = ''M1'' \<and> gender t = ''F'') [txn_c1m1])
          < length (filter (\<lambda>t. merchant t = ''M1'' \<and> gender t = ''M'') [txn_c1m1]))"
proof -
  have "pat3_detections [txn_c1m1] = [detection ''PatId3'' ''DEI-NEEDED'' [] ''M1'']"
    by (simp add: pat3_detections_def pivoted_gender_counts_def
        gender_counts_per_merchant_def txn_c1m1_def fillna0_def spark_sum_def)
  then show ?thesis by (simp add: txn_c1m1_def)
qed

subsection \<open>The counter store and the batch processor\<close>

text \<open>
  C9. An empty batch returns at once: the world is unchanged, so no counter is
  incremented or read, nothing is broadcast and nothing is written, whatever the
  store would have done.
\<close>

theorem empty_batch_skipped:
  "process_batch ci bottom y_start_time_ist detection_time_ist_str [] w = Inr w"
  by (simp add: process_batch_def)

theorem empty_batch_skipped_witness:
  "process_batch ref_c1m1 (Fin (1 / 2)) ''2025-01-01 10:00:00'' ''2025-01-01 10:00:01'' []
     (world0\<lparr>table := [''M1'' \<mapsto> 7], faults := [ConnectFails]\<rparr>)
   = Inr \<lparr>table = [''M1'' \<mapsto> 7], faults = [ConnectFails], calls = [], printed = [],
          broadcasts = [], writes = []\<rparr>"
  using empty_batch_skipped [of ref_c1m1 "Fin (1 / 2)" "''2025-01-01 10:00:00''"
      "''2025-01-01 10:00:01''" "world0\<lparr>table := [''M1'' \<mapsto> 7], faults := [ConnectFails]\<rparr>"]
  by (simp add: world0_def)

text \<open>
  C4 (the code at the failing input). When \<^verbatim>\<open>psycopg2.connect\<close> raises, the handler
  runs, and then the \<^verbatim>\<open>finally\<close> block reads the local \<^verbatim>\<open>cur\<close>, which was never
  assigned: both client functions raise \<^verbatim>\<open>UnboundLocalError\<close> instead of dropping
  the increment or returning 0, and the exception leaves \<^verbatim>\<open>process_batch\<close>, at the
  first increment as well as at a later read.
\<close>

theorem connect_failure_aborts_batch:
  "upsert_merchant_counts m d (w\<lparr>faults := ConnectFails # fs\<rparr>) = Inl UnboundLocalError
   \<and> get_merchant_total_transactions m (w\<lparr>faults := ConnectFails # fs\<rparr>) = Inl UnboundLocalError
   \<and> process_batch ci bottom y_start_time_ist detection_time_ist_str [txn_c1m1]
        (w\<lparr>faults := ConnectFails # fs\<rparr>) = Inl UnboundLocalError
   \<and> process_batch ci bottom y_start_time_ist detection_time_ist_str [txn_c1m1]
        (w\<lparr>faults := NoFault # ConnectFails # fs\<rparr>) = Inl UnboundLocalError"
  by (simp add: upsert_merchant_counts_def get_merchant_total_transactions_def
      process_batch_def merchant_counts_in_batch_def distinct_merchants_in_batch_def
      next_fault_def Let_def split: option.splits)

text \<open>
  A failure after the cursor exists is handled as the handlers intend: the increment
  is dropped with a line printed, the read returns 0.
\<close>

lemma statement_failure_handled:
  "upsert_merchant_counts m d (w\<lparr>faults := StatementFails # fs\<rparr>)
     = Inr (w\<lparr>faults := fs, calls := calls w @ [Increment m d],
              printed := printed w @ [UpdateError m]\<rparr>)
   \<and> get_merchant_total_transactions m (w\<lparr>faults := StatementFails # fs\<rparr>)
     = Inr (0, w\<lparr>faults := fs, calls := calls w @ [Lookup m],
              printed := printed w @ [RetrieveError m]\<rparr>)"
  by (simp add: upsert_merchant_counts_def get_merchant_total_transactions_def
      next_fault_def Let_def)

lemma write_detections_fields:
  "writes (write_detections fd w)
     = writes w @ (if fd = [] then [] else [(num_partitions (length fd), fd)])
   \<and> table (write_detections fd w) = table w
   \<and> calls (write_detections fd w) = calls w
   \<and> printed (write_detections fd w) = printed w
   \<and> broadcasts (write_detections fd w) = broadcasts w
   \<and> faults (write_detections fd w) = faults w"
  by (simp add: write_detections_def Let_def)

lemma merchant_counts_keys:
  "distinct (map fst (merchant_counts_in_batch df))
   \<and> fst ` set (merchant_counts_in_batch df) = merchant ` set df
   \<and> (\<forall>(m, d) \<in> set (merchant_counts_in_batch df).
        d = int (length (filter (\<lambda>t. merchant t = m) df)))"
  by (auto simp: merchant_counts_in_batch_def o_def image_iff)

text \<open>
  Runs in which every failure of the store is one that the handlers catch: the
  failures of the schedule are statement failures.
\<close>

lemma next_fault_at: "next_fault w = fault_at w 0"
  by (cases "faults w") (simp_all add: next_fault_def fault_at_def)

lemma fault_at_drop:
  "faults w' = drop n (faults w) \<Longrightarrow> fault_at w' k = fault_at w (n + k)"
  by (auto simp: fault_at_def)

lemma fault_at_tl:
  "faults w' = tl (faults w) \<Longrightarrow> fault_at w' k = fault_at w (Suc k)"
  using fault_at_drop [of w' 1 w k] by (simp add: drop_Suc)

lemma fault_at_handled:
  "set (faults w) \<subseteq> {NoFault, StatementFails} \<Longrightarrow> fault_at w k \<in> {NoFault, StatementFails}"
  by (auto simp: fault_at_def dest: nth_mem)

lemma tl_handled:
  "set (faults w) \<subseteq> {NoFault, StatementFails} \<Longrightarrow> set (tl (faults w)) \<subseteq> {NoFault, StatementFails}"
  by (cases "faults w") auto

lemma upsert_row_counter:
  "upsert_row tbl m d =
     (if accepted tbl m d then Some (tbl(m \<mapsto> counter tbl m + d)) else None)"
  by (simp add: upsert_row_def accepted_def counter_def Let_def split: option.splits)

lemma upsert_handled:
  assumes "set (faults w) \<subseteq> {NoFault, StatementFails}"
  shows "\<exists>w'. upsert_merchant_counts m d w = Inr w'
           \<and> faults w' = tl (faults w)
           \<and> calls w' = calls w @ [Increment m d]
           \<and> broadcasts w' = broadcasts w \<and> writes w' = writes w
           \<and> table w' = (if fault_at w 0 = NoFault \<and> accepted (table w) m d
                          then (table w)(m \<mapsto> counter (table w) m + d) else table w)"
  using fault_at_handled [OF assms, of 0]
  by (auto simp: upsert_merchant_counts_def Let_def next_fault_at upsert_row_counter)

lemma get_handled:
  assumes "set (faults w) \<subseteq> {NoFault, StatementFails}"
  shows "\<exists>w'. get_merchant_total_transactions m w =
               Inr (if fault_at w 0 = NoFault then counter (table w) m else 0, w')
           \<and> faults w' = tl (faults w)
           \<and> calls w' = calls w @ [Lookup m]
           \<and> table w' = table w
           \<and> broadcasts w' = broadcasts w \<and> writes w' = writes w"
  using fault_at_handled [OF assms, of 0]
  by (auto simp: get_merchant_total_transactions_def Let_def next_fault_at counter_def)

lemma upsert_all_handled:
  assumes "set (faults w) \<subseteq> {NoFault, StatementFails}" and "distinct (map fst rows)"
  shows "\<exists>w'. upsert_all rows w = Inr w'
           \<and> faults w' = drop (length rows) (faults w)
           \<and> calls w' = calls w @ map (\<lambda>(m, d). Increment m d) rows
           \<and> broadcasts w' = broadcasts w \<and> writes w' = writes w
           \<and> (\<forall>k < length rows.
                table w' (fst (rows ! k)) =
                  (if fault_at w k = NoFault
                      \<and> accepted (table w) (fst (rows ! k)) (snd (rows ! k))
                   then Some (counter (table w) (fst (rows ! k)) + snd (rows ! k))
                   else table w (fst (rows ! k))))
           \<and> (\<forall>m. m \<notin> fst ` set rows \<longrightarrow> table w' m = table w m)"
  using assms
proof (induction rows arbitrary: w)
  case Nil
  then show ?case by simp
next
  case (Cons r rows)
  obtain m d where r: "r = (m, d)" by (cases r)
  from Cons.prems(2) have m_new: "m \<notin> fst ` set rows" and dist: "distinct (map fst rows)"
    by (simp_all add: r)
  from upsert_handled [OF Cons.prems(1), of m d] obtain w1 where w1:
    "upsert_merchant_counts m d w = Inr w1" "faults w1 = tl (faults w)"
    "calls w1 = calls w @ [Increment m d]"
    "broadcasts w1 = broadcasts w" "writes w1 = writes w"
    "table w1 = (if fault_at w 0 = NoFault \<and> accepted (table w) m d
                 then (table w)(m \<mapsto> counter (table w) m + d) else table w)"
    by blast
  have h1: "set (faults w1) \<subseteq> {NoFault, StatementFails}"
    using tl_handled [OF Cons.prems(1)] by (simp add: w1(2))
  from Cons.IH [OF h1 dist] obtain w' where w':
    "upsert_all rows w1 = Inr w'" "faults w' = drop (length rows) (faults w1)"
    "calls w' = calls w1 @ map (\<lambda>(m, d). Increment m d) rows"
    "broadcasts w' = broadcasts w1" "writes w' = writes w1"
    and tab: "\<And>k. k < length rows \<Longrightarrow>
                table w' (fst (rows ! k)) =
                  (if fault_at w1 k = NoFault
                      \<and> accepted (table w1) (fst (rows ! k)) (snd (rows ! k))
                   then Some (counter (table w1) (fst (rows ! k)) + snd (rows ! k))
                   else table w1 (fst (rows ! k)))"
    and other: "\<And>m'. m' \<notin> fst ` set rows \<Longrightarrow> table w' m' = table w1 m'"
    by blast
  have same: "table w1 m' = table w m'" if "m' \<noteq> m" for m'
    using that by (simp add: w1(6))
  have run: "upsert_all (r # rows) w = Inr w'"
    by (simp add: r w1(1) w'(1))
  have f: "faults w' = drop (length (r # rows)) (faults w)"
    by (simp add: w'(2) w1(2) drop_Suc)
  have c: "calls w' = calls w @ map (\<lambda>(m, d). Increment m d) (r # rows)"
    by (simp add: w'(3) w1(3) r)
  have t: "table w' (fst ((r # rows) ! k)) =
                  (if fault_at w k = NoFault
                      \<and> accepted (table w) (fst ((r # rows) ! k)) (snd ((r # rows) ! k))
                   then Some (counter (table w) (fst ((r # rows) ! k)) + snd ((r # rows) ! k))
                   else table w (fst ((r # rows) ! k)))"
    if k: "k < length (r # rows)" for k
  proof (cases k)
    case 0
    from other [OF m_new] have "table w' m = table w1 m" .
    then show ?thesis by (simp add: 0 r w1(6))
  next
    case (Suc k')
    with k have k': "k' < length rows" by simp
    then have "fst (rows ! k') \<in> fst ` set rows" by simp
    with m_new have ne: "fst (rows ! k') \<noteq> m" by auto
    have cnt: "counter (table w1) (fst (rows ! k')) = counter (table w) (fst (rows ! k'))"
      by (simp add: counter_def same [OF ne])
    have acc: "accepted (table w1) (fst (rows ! k')) d' = accepted (table w) (fst (rows ! k')) d'"
      for d'
      by (simp add: accepted_def cnt)
    show ?thesis
      using tab [OF k'] by (simp add: Suc cnt acc same [OF ne] fault_at_tl [OF w1(2)])
  qed
  have o: "table w' m' = table w m'" if "m' \<notin> fst ` set (r # rows)" for m'
  proof -
    from that have "m' \<noteq> m" and "m' \<notin> fst ` set rows" by (simp_all add: r)
    then show ?thesis using other [of m'] same [of m'] by simp
  qed
  from run f c w'(4) w'(5) w1(4) w1(5) t o show ?case by auto
qed

lemma merchant_total_txns_map_handled:
  assumes "set (faults w) \<subseteq> {NoFault, StatementFails}" and "distinct ms"
  shows "\<exists>snap w'. merchant_total_txns_map ms acc w = Inr (snap, w')
           \<and> faults w' = drop (length ms) (faults w)
           \<and> calls w' = calls w @ map Lookup ms
           \<and> table w' = table w
           \<and> broadcasts w' = broadcasts w \<and> writes w' = writes w
           \<and> dom snap = dom acc \<union> set ms
           \<and> (\<forall>j < length ms.
                snap (ms ! j) =
                  Some (if fault_at w j = NoFault then counter (table w) (ms ! j) else 0))
           \<and> (\<forall>m. m \<notin> set ms \<longrightarrow> snap m = acc m)"
  using assms
proof (induction ms arbitrary: acc w)
  case Nil
  then show ?case by simp
next
  case (Cons m ms)
  let ?v = "if fault_at w 0 = NoFault then counter (table w) m else 0"
  from Cons.prems(2) have m_new: "m \<notin> set ms" and dist: "distinct ms" by simp_all
  from get_handled [OF Cons.prems(1), of m] obtain w1 where w1:
    "get_merchant_total_transactions m w = Inr (?v, w1)"
    "faults w1 = tl (faults w)" "calls w1 = calls w @ [Lookup m]" "table w1 = table w"
    "broadcasts w1 = broadcasts w" "writes w1 = writes w"
    by blast
  have h1: "set (faults w1) \<subseteq> {NoFault, StatementFails}"
    using tl_handled [OF Cons.prems(1)] by (simp add: w1(2))
  from Cons.IH [OF h1 dist, of "acc(m \<mapsto> ?v)"] obtain snap w' where w':
    "merchant_total_txns_map ms (acc(m \<mapsto> ?v)) w1 = Inr (snap, w')"
    "faults w' = drop (length ms) (faults w1)"
    "calls w' = calls w1 @ map Lookup ms" "table w' = table w1"
    "broadcasts w' = broadcasts w1" "writes w' = writes w1"
    "dom snap = dom (acc(m \<mapsto> ?v)) \<union> set ms"
    and sn: "\<And>j. j < length ms \<Longrightarrow>
                snap (ms ! j) =
                  Some (if fault_at w1 j = NoFault then counter (table w1) (ms ! j) else 0)"
    and other: "\<And>m'. m' \<notin> set ms \<Longrightarrow> snap m' = (acc(m \<mapsto> ?v)) m'"
    by blast
  have run: "merchant_total_txns_map (m # ms) acc w = Inr (snap, w')"
    by (simp add: w1(1) w'(1))
  have f: "faults w' = drop (length (m # ms)) (faults w)"
    by (simp add: w'(2) w1(2) drop_Suc)
  have c: "calls w' = calls w @ map Lookup (m # ms)"
    by (simp add: w'(3) w1(3))
  have d: "dom snap = dom acc \<union> set (m # ms)"
    using w'(7) by auto
  have s: "snap ((m # ms) ! j) =
             Some (if fault_at w j = NoFault then counter (table w) ((m # ms) ! j) else 0)"
    if j: "j < length (m # ms)" for j
  proof (cases j)
    case 0
    from other [OF m_new] show ?thesis by (simp add: 0)
  next
    case (Suc j')
    with j have "j' < length ms" by simp
    from sn [OF this] show ?thesis
      by (simp add: Suc w1(4) fault_at_tl [OF w1(2)])
  qed
  have o: "snap m' = acc m'" if "m' \<notin> set (m # ms)" for m'
    using that other [of m'] by simp
  from run f c w'(4) w'(5) w'(6) w1(4) w1(5) w1(6) d s o show ?case by auto
qed

lemma process_batch_handled:
  assumes ne: "df \<noteq> []" and h: "set (faults w) \<subseteq> {NoFault, StatementFails}"
  shows "\<exists>w' snap. process_batch ci b y dt df w = Inr w'
     \<and> calls w' = calls w @ map (\<lambda>(m, d). Increment m d) (merchant_counts_in_batch df)
                    @ map Lookup (distinct_merchants_in_batch df)
     \<and> broadcasts w' = broadcasts w @ [snap]
     \<and> dom snap = merchant ` set df
     \<and> writes w' = writes w @
          (if final_detections ci b y dt df snap = [] then []
           else [(num_partitions (length (final_detections ci b y dt df snap)),
                  final_detections ci b y dt df snap)])
     \<and> (\<forall>k < length (merchant_counts_in_batch df).
          table w' (fst (merchant_counts_in_batch df ! k)) =
            (if fault_at w k = NoFault
                \<and> accepted (table w) (fst (merchant_counts_in_batch df ! k)) (snd (merchant_counts_in_batch df ! k))
             then Some (counter (table w) (fst (merchant_counts_in_batch df ! k))
                        + snd (merchant_counts_in_batch df ! k))
             else table w (fst (merchant_counts_in_batch df ! k))))
     \<and> (\<forall>m. m \<notin> merchant ` set df \<longrightarrow> table w' m = table w m)
     \<and> (\<forall>j < length (distinct_merchants_in_batch df).
          snap (distinct_merchants_in_batch df ! j) =
            Some (if fault_at w (length (merchant_counts_in_batch df) + j) = NoFault
                  then counter (table w') (distinct_merchants_in_batch df ! j) else 0))"
proof -
  let ?rows = "merchant_counts_in_batch df"
  let ?ms = "distinct_merchants_in_batch df"
  have keys: "distinct (map fst ?rows)" "fst ` set ?rows = merchant ` set df"
    using merchant_counts_keys [of df] by simp_all
  have dms: "distinct ?ms" "set ?ms = merchant ` set df"
    by (simp_all add: distinct_merchants_in_batch_def)
  from upsert_all_handled [OF h keys(1)]
  obtain w1 where w1: "upsert_all ?rows w = Inr w1"
    "faults w1 = drop (length ?rows) (faults w)"
    "calls w1 = calls w @ map (\<lambda>(m, d). Increment m d) ?rows"
    "broadcasts w1 = broadcasts w" "writes w1 = writes w"
    and tab: "\<forall>k < length ?rows.
                table w1 (fst (?rows ! k)) =
                  (if fault_at w k = NoFault
                      \<and> accepted (table w) (fst (?rows ! k)) (snd (?rows ! k))
                   then Some (counter (table w) (fst (?rows ! k)) + snd (?rows ! k))
                   else table w (fst (?rows ! k)))"
    and other: "\<forall>m. m \<notin> fst ` set ?rows \<longrightarrow> table w1 m = table w m"
    by blast
  have h1: "set (faults w1) \<subseteq> {NoFault, StatementFails}"
    using h set_drop_subset [of "length ?rows" "faults w"] by (auto simp: w1(2))
  from merchant_total_txns_map_handled [OF h1 dms(1), of Map.empty]
  obtain snap w2 where w2:
    "merchant_total_txns_map ?ms Map.empty w1 = Inr (snap, w2)"
    "calls w2 = calls w1 @ map Lookup ?ms" "table w2 = table w1"
    "broadcasts w2 = broadcasts w1" "writes w2 = writes w1"
    "dom snap = dom (Map.empty :: string \<rightharpoonup> int) \<union> set ?ms"
    and sn: "\<forall>j < length ?ms.
                snap (?ms ! j) =
                  Some (if fault_at w1 j = NoFault then counter (table w1) (?ms ! j) else 0)"
    by blast
  let ?fd = "final_detections ci b y dt df snap"
  let ?w' = "write_detections ?fd (w2\<lparr>broadcasts := broadcasts w2 @ [snap]\<rparr>)"
  have pb: "process_batch ci b y dt df w = Inr ?w'"
    using ne by (simp add: process_batch_def w1(1) w2(1))
  have t': "table ?w' = table w1"
    by (simp add: write_detections_fields w2)
  have c: "calls ?w' = calls w @ map (\<lambda>(m, d). Increment m d) ?rows @ map Lookup ?ms"
    by (simp add: write_detections_fields w2 w1)
  have b: "broadcasts ?w' = broadcasts w @ [snap]"
    by (simp add: write_detections_fields w2 w1)
  have d: "dom snap = merchant ` set df"
    using w2(6) dms(2) by simp
  have wr: "writes ?w' = writes w @ (if ?fd = [] then [] else [(num_partitions (length ?fd), ?fd)])"
    by (simp add: write_detections_fields w2 w1)
  have tab': "\<forall>k < length ?rows.
                table ?w' (fst (?rows ! k)) =
                  (if fault_at w k = NoFault
                      \<and> accepted (table w) (fst (?rows ! k)) (snd (?rows ! k))
                   then Some (counter (table w) (fst (?rows ! k)) + snd (?rows ! k))
                   else table w (fst (?rows ! k)))"
    unfolding t' by (rule tab)
  have other': "\<forall>m. m \<notin> merchant ` set df \<longrightarrow> table ?w' m = table w m"
    unfolding t' using other keys(2) by simp
  have sn': "\<forall>j < length ?ms.
                snap (?ms ! j) =
                  Some (if fault_at w (length ?rows + j) = NoFault
                        then counter (table ?w') (?ms ! j) else 0)"
    unfolding t' using sn by (simp add: fault_at_drop [OF w1(2)])
  show ?thesis
    by (rule exI [of _ ?w'], rule exI [of _ snap])
      (intro conjI pb c b d wr tab' other' sn')
qed

lemma merchant_counts_batch_three:
  "merchant_counts_in_batch batch_three = [(''M2'', 1), (''M1'', 2)]"
  by (simp add: merchant_counts_in_batch_def batch_three_def txn_c1m1_def txn_2299_def)

lemma distinct_merchants_batch_three:
  "distinct_merchants_in_batch batch_three = [''M2'', ''M1'']"
  by (simp add: distinct_merchants_in_batch_def batch_three_def txn_c1m1_def txn_2299_def)




text \<open>
  C8 (as amended). For a non-empty batch in which no call of the store fails before
  its cursor exists, all reads follow all increments, with one read per distinct
  merchant of the batch; the snapshot that is broadcast has exactly the merchants of
  the batch as keys, and the detections written are computed from it. The snapshot
  maps a merchant to its counter after the increments (the counter in the table when
  the batch ends) when the merchant's read does not fail, and to 0 when it fails.
\<close>

theorem snapshot_after_increments:
  assumes "current_df \<noteq> []" and "set (faults w) \<subseteq> {NoFault, StatementFails}"
  shows "\<exists>w' snapshot.
       process_batch ci bottom y_start_time_ist detection_time_ist_str current_df w = Inr w'
     \<and> calls w' = calls w
          @ map (\<lambda>(m, d). Increment m d) (merchant_counts_in_batch current_df)
          @ map Lookup (distinct_merchants_in_batch current_df)
     \<and> distinct (distinct_merchants_in_batch current_df)
     \<and> set (distinct_merchants_in_batch current_df) = merchant ` set current_df
     \<and> broadcasts w' = broadcasts w @ [snapshot]
     \<and> dom snapshot = merchant ` set current_df
     \<and> writes w' = writes w @
          (if final_detections ci bottom y_start_time_ist detection_time_ist_str
                current_df snapshot = [] then []
           else [(num_partitions (length (final_detections ci bottom y_start_time_ist
                     detection_time_ist_str current_df snapshot)),
                  final_detections ci bottom y_start_time_ist detection_time_ist_str
                     current_df snapshot)])
     \<and> (\<forall>j < length (distinct_merchants_in_batch current_df).
          snapshot (distinct_merchants_in_batch current_df ! j) =
            Some (if fault_at w (length (merchant_counts_in_batch current_df) + j) = NoFault
                  then counter (table w') (distinct_merchants_in_batch current_df ! j)
                  else 0))"
proof -
  from process_batch_handled [OF assms, of ci bottom y_start_time_ist detection_time_ist_str]
  obtain w' snapshot where w':
    "process_batch ci bottom y_start_time_ist detection_time_ist_str current_df w = Inr w'"
    "calls w' = calls w
          @ map (\<lambda>(m, d). Increment m d) (merchant_counts_in_batch current_df)
          @ map Lookup (distinct_merchants_in_batch current_df)"
    "broadcasts w' = broadcasts w @ [snapshot]"
    "dom snapshot = merchant ` set current_df"
    "writes w' = writes w @
          (if final_detections ci bottom y_start_time_ist detection_time_ist_str
                current_df snapshot = [] then []
           else [(num_partitions (length (final_detections ci bottom y_start_time_ist
                     detection_time_ist_str current_df snapshot)),
                  final_detections ci bottom y_start_time_ist detection_time_ist_str
                     current_df snapshot)])"
    "\<forall>j < length (distinct_merchants_in_batch current_df).
          snapshot (distinct_merchants_in_batch current_df ! j) =
            Some (if fault_at w (length (merchant_counts_in_batch current_df) + j) = NoFault
                  then counter (table w') (distinct_merchants_in_batch current_df ! j)
                  else 0)"
    by blast
  have d: "distinct (distinct_merchants_in_batch current_df)"
    "set (distinct_merchants_in_batch current_df) = merchant ` set current_df"
    by (simp_all add: distinct_merchants_in_batch_def)
  show ?thesis
    by (rule exI [of _ w'], rule exI [of _ snapshot])
      (intro conjI w'(1) w'(2) d(1) d(2) w'(3) w'(4) w'(5) w'(6))
qed

theorem snapshot_after_increments_witness:
  "\<exists>w' snapshot.
       process_batch ref_c1m1 (Fin (1 / 2)) ''2025-01-01 10:00:00'' ''2025-01-01 10:00:01''
           batch_three (world0\<lparr>table := [''M1'' \<mapsto> 50000]\<rparr>) = Inr w'
     \<and> broadcasts w' = [snapshot]
     \<and> snapshot ''M1'' = Some (counter (table w') ''M1'')
     \<and> snapshot ''M2'' = Some (counter (table w') ''M2'')"
proof -
  let ?w = "world0\<lparr>table := [''M1'' \<mapsto> 50000]\<rparr>"
  have ne: "batch_three \<noteq> []" by (simp add: batch_three_def)
  have h: "set (faults ?w) \<subseteq> {NoFault, StatementFails}"
    by (simp add: world0_def)
  from snapshot_after_increments [OF ne h, of ref_c1m1 "Fin (1 / 2)" "''2025-01-01 10:00:00''"
      "''2025-01-01 10:00:01''"]
  obtain w' snapshot where w': "process_batch ref_c1m1 (Fin (1 / 2)) ''2025-01-01 10:00:00''
        ''2025-01-01 10:00:01'' batch_three ?w = Inr w'"
    and b: "broadcasts w' = broadcasts ?w @ [snapshot]"
    and sn: "\<forall>j < length (distinct_merchants_in_batch batch_three).
          snapshot (distinct_merchants_in_batch batch_three ! j) =
            Some (if fault_at ?w (length (merchant_counts_in_batch batch_three) + j) = NoFault
                  then counter (table w') (distinct_merchants_in_batch batch_three ! j)
                  else 0)"
    by blast
  from b have "broadcasts w' = [snapshot]" by (simp add: world0_def)
  moreover from sn [rule_format, of 0] sn [rule_format, of 1]
  have "snapshot ''M1'' = Some (counter (table w') ''M1'')"
    "snapshot ''M2'' = Some (counter (table w') ''M2'')"
    by (simp_all add: distinct_merchants_batch_three merchant_counts_batch_three world0_def
        fault_at_def)
  ultimately show ?thesis using w' by blast
qed

text \<open>
  The claim as stated has the snapshot hold the post-increment count of every
  merchant, in every non-empty batch. After a read whose statement fails the snapshot
  holds 0 for a merchant whose counter is 60001; when the store cannot be reached at
  the read the batch is left with an exception.
\<close>

theorem snapshot_read_failure_counterexample:
  "(\<exists>w'. process_batch ref_c1m1 (Fin (1 / 2)) ''2025-01-01 10:00:00'' ''2025-01-01 10:00:01''
           [txn_c1m1]
           (world0\<lparr>table := [''M1'' \<mapsto> 60000], faults := [NoFault, StatementFails]\<rparr>) = Inr w'
      \<and> calls w' = [Increment ''M1'' 1, Lookup ''M1'']
      \<and> broadcasts w' = [[''M1'' \<mapsto> 0]]
      \<and> table w' ''M1'' = Some 60001)
   \<and> process_batch ref_c1m1 (Fin (1 / 2)) ''2025-01-01 10:00:00'' ''2025-01-01 10:00:01''
        [txn_c1m1]
        (world0\<lparr>table := [''M1'' \<mapsto> 60000], faults := [NoFault, ConnectFails]\<rparr>)
      = Inl UnboundLocalError"
  by (simp add: process_batch_def merchant_counts_in_batch_def distinct_merchants_in_batch_def
      upsert_merchant_counts_def get_merchant_total_transactions_def next_fault_def
      upsert_row_def in_bigint_def write_detections_def Let_def
      txn_c1m1_def world0_def)

subsection \<open>Output partitioning\<close>

lemma deal_snd: "map snd (deal n p xs) = xs"
  by (induction xs arbitrary: p) auto

lemma deal_tags: "0 < n \<Longrightarrow> (i, x) \<in> set (deal n p xs) \<Longrightarrow> i < n"
  by (induction xs arbitrary: p) auto

lemma split_tag:
  "mset (map snd (filter (\<lambda>(i, x). i < Suc n) ys)) =
     mset (map snd (filter (\<lambda>(i, x). i < n) ys)) + mset (map snd (filter (\<lambda>(i, x). i = n) ys))"
  by (induction ys) (auto simp: less_Suc_eq)

lemma mset_collect_tags:
  "mset (concat (map (\<lambda>j. map snd (filter (\<lambda>(i, x). i = j) ys)) [0..<n]))
     = mset (map snd (filter (\<lambda>(i, x). i < n) ys))"
proof (induction n)
  case 0
  then show ?case by simp
next
  case (Suc n)
  have step: "mset (concat (map (\<lambda>j. map snd (filter (\<lambda>(i, x). i = j) ys)) [0..<Suc n]))
      = mset (concat (map (\<lambda>j. map snd (filter (\<lambda>(i, x). i = j) ys)) [0..<n]))
        + mset (map snd (filter (\<lambda>(i, x). i = n) ys))"
    by simp
  show ?case unfolding step Suc.IH split_tag ..
qed

lemma mset_repartition:
  assumes "0 < n"
  shows "mset (concat (repartition n parts)) = mset (concat (map snd parts))"
proof -
  let ?dealt = "concat (map (\<lambda>(p, rows). deal n p rows) parts)"
  have tags: "\<forall>(i, x) \<in> set ?dealt. i < n"
    using deal_tags [OF assms] by fastforce
  then have all: "filter (\<lambda>(i, x). i < n) ?dealt = ?dealt"
    by (intro filter_True) auto
  have snd: "map snd ?dealt = concat (map snd parts)"
    by (induction parts) (auto simp: deal_snd)
  show ?thesis
    unfolding repartition_def Let_def mset_collect_tags all snd ..
qed

lemma length_repartition: "length (repartition n parts) = n"
  by (simp add: repartition_def Let_def)

lemma num_partitions_ceiling:
  assumes "0 < n"
  shows "num_partitions n = (n + 49) div 50"
proof -
  from assms have "1 \<le> (n + 49) div 50" by arith
  then show ?thesis
    by (simp add: num_partitions_def DETECTION_BATCH_SIZE_def max_def add.commute)
qed


lemma deal_map: "deal n p (map f xs) = map (\<lambda>(i, x). (i, f x)) (deal n p xs)"
  by (induction xs arbitrary: p) auto

lemma unit_sizes_map:
  "map length (repartition n [(p, map f xs)]) = map length (repartition n [(p, xs)])"
  by (simp add: repartition_def Let_def deal_map filter_map o_def split_beta case_prod_beta')

lemma unit_sizes_125: "map length (repartition 3 [(0, [1..<126])]) = [41, 42, 42]"
  by code_simp

text \<open>
  What the write does keep, whatever input partitions the detections lie in: for
  \<open>n > 0\<close> rows it asks for \<open>(n + 49) div 50\<close> partitions, the least number whose
  capacity at 50 rows each holds the set, in one write of the batch, and the
  partitions written hold together exactly the rows of the set, each row once.
\<close>

lemma output_units_rows:
  assumes "concat (map snd parts) \<noteq> []"
  shows "length (output_units parts) = (length (concat (map snd parts)) + 49) div 50
       \<and> length (concat (map snd parts)) \<le> 50 * length (output_units parts)
       \<and> 50 * (length (output_units parts) - 1) < length (concat (map snd parts))
       \<and> (length (concat (map snd parts)) = 125 \<longrightarrow> length (output_units parts) = 3)
       \<and> mset (concat (output_units parts)) = mset (concat (map snd parts))
       \<and> (distinct (concat (map snd parts)) \<longrightarrow> distinct (concat (output_units parts)))
       \<and> (\<forall>w. writes (write_detections (concat (map snd parts)) w)
              = writes w @ [(length (output_units parts), concat (map snd parts))])"
proof -
  let ?rows = "concat (map snd parts)"
  from assms have pos: "0 < length ?rows" by simp
  have len: "length (output_units parts) = num_partitions (length ?rows)"
    by (simp add: output_units_def length_repartition)
  have np: "num_partitions (length ?rows) = (length ?rows + 49) div 50"
    by (rule num_partitions_ceiling [OF pos])
  have np_pos: "0 < num_partitions (length ?rows)"
    unfolding np using pos by arith
  have ms: "mset (concat (output_units parts)) = mset ?rows"
    unfolding output_units_def by (rule mset_repartition [OF np_pos])
  have dist: "distinct (concat (output_units parts))" if "distinct ?rows"
    using mset_eq_imp_distinct_iff [OF ms] that by simp
  have wr: "writes (write_detections ?rows w) = writes w @ [(length (output_units parts), ?rows)]"
    for w
    using assms by (simp add: write_detections_def Let_def len)
  have a: "length ?rows \<le> 50 * ((length ?rows + 49) div 50)" by arith
  have b: "50 * ((length ?rows + 49) div 50 - 1) < length ?rows" using pos by arith
  have c: "length ?rows = 125 \<longrightarrow> (length ?rows + 49) div 50 = 3" by simp
  from a b c ms dist wr show ?thesis unfolding len np by blast
qed

lemma unit_sizes_maps:
  "map length (repartition n (map (\<lambda>(p, rows). (p, map f rows)) parts))
     = map length (repartition n parts)"
proof -
  have "concat (map (\<lambda>(p, rows). deal n p rows) (map (\<lambda>(p, rows). (p, map f rows)) parts))
      = map (\<lambda>(i, x). (i, f x)) (concat (map (\<lambda>(p, rows). deal n p rows) parts))"
    by (induction parts) (auto simp: deal_map)
  then show ?thesis
    by (simp add: repartition_def Let_def filter_map o_def split_beta case_prod_beta')
qed

lemma deal_cong_mod:
  "p mod n = q mod n \<Longrightarrow> deal n p xs = deal n q xs"
proof (induction xs arbitrary: p q)
  case Nil
  then show ?case by simp
next
  case (Cons x xs)
  from Cons.prems have s: "(p + 1) mod n = (q + 1) mod n"
    by (metis mod_add_left_eq)
  from Cons.IH [OF s] s show ?case by simp
qed

lemma repartition_start_mod:
  "repartition n [(p, xs)] = repartition n [(p mod n, xs)]"
  using deal_cong_mod [of "p mod n" n p xs] by (simp add: repartition_def)

lemma unit_sizes_125_1: "map length (repartition 3 [(1, [1..<126])]) = [42, 41, 42]"
  by code_simp

lemma unit_sizes_125_2: "map length (repartition 3 [(2, [1..<126])]) = [42, 42, 41]"
  by code_simp

lemma unit_sizes_100: "map length (repartition 2 [(0, [1..<4]), (0, [4..<101])]) = [49, 51]"
  by code_simp

lemma length_rows_125: "length rows_125 = 125"
  by (simp add: rows_125_def)

lemma length_parts_100: "length (concat (map snd parts_100)) = 100"
  by (simp add: parts_100_def)

text \<open>
  C3 (the code at the failing inputs). The write does not cut the rows into groups
  of 50: it deals them to the partitions in turn. 100 detections that lie in input
  partitions of 3 and of 97 rows are written as units of 49 and of 51 rows, one above
  \<^const>\<open>DETECTION_BATCH_SIZE\<close>; 125 detections that lie in one input partition are
  written as units of 41, 42 and 42 rows in some order, whatever the position the
  dealing starts from, and never as units of 50, 50 and 25 rows.
\<close>

theorem repartition_unit_sizes:
  "length (concat (map snd parts_100)) = 100
   \<and> map length (output_units parts_100) = [49, 51]
   \<and> DETECTION_BATCH_SIZE < length (output_units parts_100 ! 1)
   \<and> length rows_125 = 125
   \<and> (\<forall>p. map length (output_units [(p, rows_125)])
          \<in> {[41, 42, 42], [42, 41, 42], [42, 42, 41]})"
proof -
  let ?f = "\<lambda>i. detection ''PatId3'' ''DEI-NEEDED'' [] (replicate i CHR ''m'')"
  have pm: "parts_100 = map (\<lambda>(p, rows). (p, map ?f rows)) [(0, [1..<4]), (0, [4..<101])]"
    by (simp add: parts_100_def)
  have "map length (output_units parts_100) = map length (repartition 2 parts_100)"
    by (simp add: output_units_def length_parts_100 num_partitions_ceiling)
  also have "\<dots> = map length (repartition 2 [(0, [1..<4]), (0, [4..<101])])"
    unfolding pm unit_sizes_maps ..
  also have "\<dots> = [49, 51]"
    by (rule unit_sizes_100)
  finally have a: "map length (output_units parts_100) = [49, 51]" .
  have b: "map length (output_units [(p, rows_125)])
          \<in> {[41, 42, 42], [42, 41, 42], [42, 42, 41]}" for p
  proof -
    have "map length (output_units [(p, rows_125)]) = map length (repartition 3 [(p, rows_125)])"
      by (simp add: output_units_def length_rows_125 num_partitions_ceiling)
    also have "\<dots> = map length (repartition 3 [(p mod 3, [1..<126])])"
      unfolding rows_125_def unit_sizes_map by (simp only: repartition_start_mod [of 3 p])
    finally have eq: "map length (output_units [(p, rows_125)])
        = map length (repartition 3 [(p mod 3, [1..<126])])" .
    have "p mod 3 = 0 \<or> p mod 3 = 1 \<or> p mod 3 = 2" by arith
    then show ?thesis
      unfolding eq using unit_sizes_125 unit_sizes_125_1 unit_sizes_125_2 by auto
  qed
  from a have "length (output_units parts_100) = 2"
    by (metis length_map length_Cons list.size(3) numeral_2_eq_2)
  then have "length (output_units parts_100 ! 1) = map length (output_units parts_100) ! 1"
    by simp
  with a have c: "DETECTION_BATCH_SIZE < length (output_units parts_100 ! 1)"
    by (simp add: DETECTION_BATCH_SIZE_def)
  from a b c length_parts_100 length_rows_125 show ?thesis by blast
qed

end
